theory Spec2Isabelle
  imports Main
begin

section \<open>Go values used by \<^verbatim>\<open>mounted_file_system.go\<close>\<close>

text \<open>
  A Go \<^verbatim>\<open>error\<close> is observed only through its \<^verbatim>\<open>Error()\<close> method, so an error value
  is modelled by its message; the nil error is \<open>None\<close> of \<open>error option\<close>.
  \<^verbatim>\<open>errors.New(text)\<close> builds the error whose message is \<open>text\<close>.
\<close>

datatype error = ErrorString string

fun Error :: "error \<Rightarrow> string" where
  "Error (ErrorString text) = text"

definition errors_New :: "string \<Rightarrow> error" where
  "errors_New text = ErrorString text"

text \<open>
  A \<^verbatim>\<open>chan struct{}\<close> on which nothing is ever sent: the only operations of the file are
  \<^verbatim>\<open>close\<close> and receive. A receive blocks while the channel is open and succeeds at once
  when it is closed; closing a closed channel panics (\<open>None\<close>).
\<close>

datatype chan = Open | Closed

fun close_chan :: "chan \<Rightarrow> chan option" where
  "close_chan Open = Some Closed"
| "close_chan Closed = None"

text \<open>
  A \<^verbatim>\<open>select\<close> over two receive cases. When both channels are closed Go picks one of the
  ready cases at random: the choice is the boolean argument.
\<close>

datatype selected = First_case | Second_case | No_case_ready

fun select2 :: "chan \<Rightarrow> chan \<Rightarrow> bool \<Rightarrow> selected" where
  "select2 Closed Open pick = First_case"
| "select2 Open Closed pick = Second_case"
| "select2 Closed Closed pick = (if pick then First_case else Second_case)"
| "select2 Open Open pick = No_case_ready"

text \<open>The result of a call that may block: it returns a value, or it is still blocked.\<close>

datatype 'a call = Returns 'a | Blocks

text \<open>\<^verbatim>\<open>context.Context\<close>: the \<^verbatim>\<open>Done()\<close> channel and the value of \<^verbatim>\<open>Err()\<close>.\<close>

record Context =
  Done :: chan
  Err :: "error option"

text \<open>
  \<^verbatim>\<open>*bazilfuse.Conn\<close>: the \<^verbatim>\<open>Ready\<close> channel and the \<^verbatim>\<open>MountError\<close> field, which the
  connection sets before it closes \<^verbatim>\<open>Ready\<close>.
\<close>

record Conn =
  Ready :: chan
  MountError :: "error option"

text \<open>\<^verbatim>\<open>bazilfuse.MountOption\<close> is opaque to this file.\<close>

typedecl MountOption

text \<open>\<^verbatim>\<open>type MountConfig struct {}\<close>; a \<^verbatim>\<open>*MountConfig\<close> may be nil.\<close>

datatype MountConfig = MountConfig

section \<open>The struct and its public methods\<close>

record MountedFileSystem =
  dir :: string
  readyStatus :: "error option"
  readyStatusAvailable :: chan
  joinStatus :: "error option"
  joinStatusAvailable :: chan

definition Dir :: "MountedFileSystem \<Rightarrow> string" where
  "Dir m = dir m"

text \<open>\<^verbatim>\<open>Unmount\<close> hands the directory to \<^verbatim>\<open>bazilfuse.Unmount\<close>, a parameter.\<close>

definition Unmount :: "(string \<Rightarrow> error option) \<Rightarrow> MountedFileSystem \<Rightarrow> error option" where
  "Unmount bazilfuse_Unmount m = bazilfuse_Unmount (dir m)"

text \<open>
  \<^verbatim>\<open>WaitForReady\<close> and \<^verbatim>\<open>Join\<close> at one moment of the program: the struct as it is then,
  the caller's context, and the choice of the \<^verbatim>\<open>select\<close>. The struct is returned with the
  result, so that what the call does to it is part of the model.
\<close>

definition WaitForReady ::
  "MountedFileSystem \<Rightarrow> Context \<Rightarrow> bool \<Rightarrow> error option call \<times> MountedFileSystem" where
  "WaitForReady m ctx pick =
     (case select2 (readyStatusAvailable m) (Done ctx) pick of
        First_case \<Rightarrow> (Returns (readyStatus m), m)
      | Second_case \<Rightarrow> (Returns (Err ctx), m)
      | No_case_ready \<Rightarrow> (Blocks, m))"

definition Join ::
  "MountedFileSystem \<Rightarrow> Context \<Rightarrow> bool \<Rightarrow> error option call \<times> MountedFileSystem" where
  "Join m ctx pick =
     (case select2 (joinStatusAvailable m) (Done ctx) pick of
        First_case \<Rightarrow> (Returns (joinStatus m), m)
      | Second_case \<Rightarrow> (Returns (Err ctx), m)
      | No_case_ready \<Rightarrow> (Blocks, m))"

section \<open>The background goroutines as a transition system\<close>

text \<open>
  What the program did so far, oldest first: every write to an outcome field, every
  close of a channel of the struct, and the calls to and returns from the collaborators.
\<close>

datatype event =
    CallMount
  | WriteReadyStatus "error option"
  | CloseReadyStatusAvailable
  | CallServe
  | ServeReturned "error option"
  | WriteJoinStatus "error option"
  | CloseJoinStatusAvailable
  | CallClose

text \<open>
  Program points of \<^verbatim>\<open>mountAndServe\<close>, named by the line about to run.
  \<open>L108_InServe\<close> is the goroutine blocked inside \<^verbatim>\<open>server.Serve(c)\<close>;
  \<open>L93_DeferredClose\<close> is the deferred \<^verbatim>\<open>c.Close()\<close>, run when the function returns.
\<close>

datatype main_pc =
    L86_Mount
  | L88_WriteReadyStatus
  | L89_CloseReadyStatusAvailable
  | L97_Go
  | L108_Serve
  | L108_InServe
  | L109_WriteJoinStatus
  | L110_CloseJoinStatusAvailable
  | L115_CloseJoinStatusAvailable
  | L93_DeferredClose
  | Returned

text \<open>Program points of the goroutine started on line 97.\<close>

datatype ready_pc =
    NotStarted
  | L99_ReceiveReady
  | L102_WriteReadyStatus
  | L103_CloseReadyStatusAvailable
  | Finished

text \<open>
  The state of the program: the struct, the locals of \<^verbatim>\<open>mountAndServe\<close> (\<open>options\<close>, the
  connection \<open>conn\<close> of line 86 with the \<open>mount_err\<close> beside it, the \<open>serve_err\<close> of line 108),
  the two program counters, whether a panic is unwinding \<^verbatim>\<open>mountAndServe\<close>, whether the
  process has died of a panic, and the history.
\<close>

record sys =
  the_mfs :: MountedFileSystem
  options :: "MountOption list"
  conn :: "Conn option"
  mount_err :: "error option"
  serve_err :: "error option"
  main_pc :: main_pc
  ready_pc :: ready_pc
  panicking :: bool
  crashed :: bool
  history :: "event list"

definition record_event :: "event \<Rightarrow> sys \<Rightarrow> sys" where
  "record_event e s = s\<lparr>history := history s @ [e]\<rparr>"

definition write_readyStatus :: "error option \<Rightarrow> sys \<Rightarrow> sys" where
  "write_readyStatus v s =
     record_event (WriteReadyStatus v) (s\<lparr>the_mfs := (the_mfs s)\<lparr>readyStatus := v\<rparr>\<rparr>)"

definition write_joinStatus :: "error option \<Rightarrow> sys \<Rightarrow> sys" where
  "write_joinStatus v s =
     record_event (WriteJoinStatus v) (s\<lparr>the_mfs := (the_mfs s)\<lparr>joinStatus := v\<rparr>\<rparr>)"

text \<open>
  One step of \<^verbatim>\<open>mountAndServe\<close>. The driver \<^verbatim>\<open>bazilfuse.Mount\<close> is a parameter. The step is
  not enabled (\<open>None\<close>) while the goroutine is blocked inside \<^verbatim>\<open>Serve\<close> and after it has
  returned. A panic before the \<^verbatim>\<open>defer\<close> of line 93 kills the process at once; a panic
  after it runs the deferred call first.
\<close>

definition mountAndServe_step ::
  "(string \<Rightarrow> MountOption list \<Rightarrow> error + Conn) \<Rightarrow> sys \<Rightarrow> sys option" where
  "mountAndServe_step bazilfuse_Mount s =
     (case main_pc s of
        L86_Mount \<Rightarrow>
          (case bazilfuse_Mount (dir (the_mfs s)) (options s) of
             Inl e \<Rightarrow>
               Some (record_event CallMount
                 (s\<lparr>mount_err := Some e, main_pc := L88_WriteReadyStatus\<rparr>))
           | Inr cn \<Rightarrow>
               Some (record_event CallMount
                 (s\<lparr>conn := Some cn, mount_err := None, main_pc := L97_Go\<rparr>)))
      | L88_WriteReadyStatus \<Rightarrow>
          (case mount_err s of
             None \<Rightarrow> Some (s\<lparr>crashed := True\<rparr>)
           | Some e \<Rightarrow>
               Some (write_readyStatus (Some (errors_New (''bazilfuse.Mount: '' @ Error e)))
                 (s\<lparr>main_pc := L89_CloseReadyStatusAvailable\<rparr>)))
      | L89_CloseReadyStatusAvailable \<Rightarrow>
          (case close_chan (readyStatusAvailable (the_mfs s)) of
             None \<Rightarrow> Some (s\<lparr>crashed := True\<rparr>)
           | Some ch \<Rightarrow>
               Some (record_event CloseReadyStatusAvailable
                 (s\<lparr>the_mfs := (the_mfs s)\<lparr>readyStatusAvailable := ch\<rparr>,
                    main_pc := Returned\<rparr>)))
      | L97_Go \<Rightarrow> Some (s\<lparr>ready_pc := L99_ReceiveReady, main_pc := L108_Serve\<rparr>)
      | L108_Serve \<Rightarrow> Some (record_event CallServe (s\<lparr>main_pc := L108_InServe\<rparr>))
      | L108_InServe \<Rightarrow> None
      | L109_WriteJoinStatus \<Rightarrow>
          (case serve_err s of
             None \<Rightarrow> Some (s\<lparr>panicking := True, main_pc := L93_DeferredClose\<rparr>)
           | Some e \<Rightarrow>
               Some (write_joinStatus (Some (errors_New (''Serve: '' @ Error e)))
                 (s\<lparr>main_pc := L110_CloseJoinStatusAvailable\<rparr>)))
      | L110_CloseJoinStatusAvailable \<Rightarrow>
          (case close_chan (joinStatusAvailable (the_mfs s)) of
             None \<Rightarrow> Some (s\<lparr>panicking := True, main_pc := L93_DeferredClose\<rparr>)
           | Some ch \<Rightarrow>
               Some (record_event CloseJoinStatusAvailable
                 (s\<lparr>the_mfs := (the_mfs s)\<lparr>joinStatusAvailable := ch\<rparr>,
                    main_pc := L93_DeferredClose\<rparr>)))
      | L115_CloseJoinStatusAvailable \<Rightarrow>
          (case close_chan (joinStatusAvailable (the_mfs s)) of
             None \<Rightarrow> Some (s\<lparr>panicking := True, main_pc := L93_DeferredClose\<rparr>)
           | Some ch \<Rightarrow>
               Some (record_event CloseJoinStatusAvailable
                 (s\<lparr>the_mfs := (the_mfs s)\<lparr>joinStatusAvailable := ch\<rparr>,
                    main_pc := L93_DeferredClose\<rparr>)))
      | L93_DeferredClose \<Rightarrow>
          Some (record_event CallClose (s\<lparr>crashed := panicking s, main_pc := Returned\<rparr>))
      | Returned \<Rightarrow> None)"

text \<open>
  One step of the goroutine of lines 97 to 104. The receive of line 99 is enabled only
  once the connection has closed \<^verbatim>\<open>Ready\<close>. A nil connection or a second close panics,
  and a panic in this goroutine kills the process.
\<close>

definition readiness_step :: "sys \<Rightarrow> sys option" where
  "readiness_step s =
     (case ready_pc s of
        NotStarted \<Rightarrow> None
      | L99_ReceiveReady \<Rightarrow>
          (case conn s of
             None \<Rightarrow> Some (s\<lparr>crashed := True\<rparr>)
           | Some cn \<Rightarrow>
               (case Ready cn of
                  Open \<Rightarrow> None
                | Closed \<Rightarrow> Some (s\<lparr>ready_pc := L102_WriteReadyStatus\<rparr>)))
      | L102_WriteReadyStatus \<Rightarrow>
          (case conn s of
             None \<Rightarrow> Some (s\<lparr>crashed := True\<rparr>)
           | Some cn \<Rightarrow>
               Some (write_readyStatus (MountError cn)
                 (s\<lparr>ready_pc := L103_CloseReadyStatusAvailable\<rparr>)))
      | L103_CloseReadyStatusAvailable \<Rightarrow>
          (case close_chan (readyStatusAvailable (the_mfs s)) of
             None \<Rightarrow> Some (s\<lparr>crashed := True\<rparr>)
           | Some ch \<Rightarrow>
               Some (record_event CloseReadyStatusAvailable
                 (s\<lparr>the_mfs := (the_mfs s)\<lparr>readyStatusAvailable := ch\<rparr>,
                    ready_pc := Finished\<rparr>)))
      | Finished \<Rightarrow> None)"

text \<open>
  The collaborators act on their own: the connection becomes ready, carrying a mount
  error or nil (once: \<^verbatim>\<open>Ready\<close> is closed then), and \<^verbatim>\<open>Serve\<close> returns an error or nil
  to the goroutine blocked in it, which then takes the branch of line 108.
\<close>

definition conn_becomes_ready :: "error option \<Rightarrow> sys \<Rightarrow> sys option" where
  "conn_becomes_ready e s =
     (case conn s of
        None \<Rightarrow> None
      | Some cn \<Rightarrow>
          (case Ready cn of
             Closed \<Rightarrow> None
           | Open \<Rightarrow> Some (s\<lparr>conn := Some (cn\<lparr>Ready := Closed, MountError := e\<rparr>)\<rparr>)))"

definition serve_returns :: "error option \<Rightarrow> sys \<Rightarrow> sys option" where
  "serve_returns r s =
     (case main_pc s of
        L108_InServe \<Rightarrow>
          Some (record_event (ServeReturned r)
            (s\<lparr>serve_err := r,
               main_pc := (case r of
                             Some e \<Rightarrow> L109_WriteJoinStatus
                           | None \<Rightarrow> L115_CloseJoinStatusAvailable)\<rparr>))
      | _ \<Rightarrow> None)"

text \<open>A schedule is a list of actions; a dead process takes no step.\<close>

datatype action =
    Step_mountAndServe
  | Step_readiness
  | Conn_becomes_ready "error option"
  | Serve_returns "error option"

definition step ::
  "(string \<Rightarrow> MountOption list \<Rightarrow> error + Conn) \<Rightarrow> action \<Rightarrow> sys \<Rightarrow> sys option" where
  "step bazilfuse_Mount a s =
     (if crashed s then None
      else case a of
        Step_mountAndServe \<Rightarrow> mountAndServe_step bazilfuse_Mount s
      | Step_readiness \<Rightarrow> readiness_step s
      | Conn_becomes_ready e \<Rightarrow> conn_becomes_ready e s
      | Serve_returns r \<Rightarrow> serve_returns r s)"

fun exec ::
  "(string \<Rightarrow> MountOption list \<Rightarrow> error + Conn) \<Rightarrow> action list \<Rightarrow> sys \<Rightarrow> sys option" where
  "exec bazilfuse_Mount [] s = Some s"
| "exec bazilfuse_Mount (a # as) s =
     (case step bazilfuse_Mount a s of
        None \<Rightarrow> None
      | Some s' \<Rightarrow> exec bazilfuse_Mount as s')"

section \<open>\<^verbatim>\<open>Mount\<close>\<close>

text \<open>
  The program right after \<^verbatim>\<open>go mfs.mountAndServe(server, options)\<close>: a fresh struct with
  both channels open, and the goroutine about to run line 86.
\<close>

definition start :: "string \<Rightarrow> MountOption list \<Rightarrow> sys" where
  "start d opts =
     \<lparr>the_mfs = \<lparr>dir = d, readyStatus = None, readyStatusAvailable = Open,
                 joinStatus = None, joinStatusAvailable = Open\<rparr>,
      options = opts, conn = None, mount_err = None, serve_err = None,
      main_pc = L86_Mount, ready_pc = NotStarted,
      panicking = False, crashed = False, history = []\<rparr>"

text \<open>
  \<^verbatim>\<open>newServer\<close> and \<^verbatim>\<open>bazilfuseOptions\<close> are declared outside this file and are
  parameters. The result is the pair of named results \<^verbatim>\<open>(mfs, err)\<close>; a non-nil \<^verbatim>\<open>mfs\<close>
  comes with the program it started.
\<close>

definition Mount ::
  "('fs \<Rightarrow> error + 'server) \<Rightarrow> (MountConfig option \<Rightarrow> MountOption list) \<Rightarrow>
   string \<Rightarrow> 'fs \<Rightarrow> MountConfig option \<Rightarrow> sys option \<times> error option" where
  "Mount newServer bazilfuseOptions d fs config =
     (case newServer fs of
        Inl e \<Rightarrow> (None, Some e)
      | Inr server \<Rightarrow> (Some (start d (bazilfuseOptions config)), None))"

section \<open>Test doubles\<close>

text \<open>A driver whose mount fails, and one that yields a connection that is not ready yet.\<close>

definition failing_driver :: "string \<Rightarrow> MountOption list \<Rightarrow> error + Conn" where
  "failing_driver d opts = Inl (ErrorString ''exit status 1'')"

definition working_driver :: "string \<Rightarrow> MountOption list \<Rightarrow> error + Conn" where
  "working_driver d opts = Inr \<lparr>Ready = Open, MountError = None\<rparr>"

text \<open>A driver whose connection is ready when it is returned, carrying a mount error.\<close>

definition ready_failed_driver :: "string \<Rightarrow> MountOption list \<Rightarrow> error + Conn" where
  "ready_failed_driver d opts = Inr \<lparr>Ready = Closed, MountError = Some (ErrorString ''EIO'')\<rparr>"

text \<open>A \<^verbatim>\<open>newServer\<close> that fails, one that succeeds, and a configuration with no options.\<close>

definition failing_newServer :: "unit \<Rightarrow> error + unit" where
  "failing_newServer fs = Inl (ErrorString ''newServer failed'')"

definition working_newServer :: "unit \<Rightarrow> error + unit" where
  "working_newServer fs = Inr ()"

definition no_options :: "MountConfig option \<Rightarrow> MountOption list" where
  "no_options config = []"

section \<open>Reading the history\<close>

text \<open>The events on \<^verbatim>\<open>readyStatus\<close> and its channel, on \<^verbatim>\<open>joinStatus\<close> and its channel, and
  on the collaborators.\<close>

fun on_ready :: "event \<Rightarrow> bool" where
  "on_ready (WriteReadyStatus v) = True"
| "on_ready CloseReadyStatusAvailable = True"
| "on_ready e = False"

fun on_join :: "event \<Rightarrow> bool" where
  "on_join (WriteJoinStatus v) = True"
| "on_join CloseJoinStatusAvailable = True"
| "on_join e = False"

fun on_collaborators :: "event \<Rightarrow> bool" where
  "on_collaborators CallMount = True"
| "on_collaborators CallServe = True"
| "on_collaborators (ServeReturned r) = True"
| "on_collaborators CallClose = True"
| "on_collaborators e = False"

fun writes_readyStatus :: "event \<Rightarrow> bool" where
  "writes_readyStatus (WriteReadyStatus v) = True"
| "writes_readyStatus e = False"

fun writes_joinStatus :: "event \<Rightarrow> bool" where
  "writes_joinStatus (WriteJoinStatus v) = True"
| "writes_joinStatus e = False"

text \<open>The events of a history that come after the first occurrence of \<open>c\<close>.\<close>

definition after_first :: "event \<Rightarrow> event list \<Rightarrow> event list" where
  "after_first c h = tl (dropWhile (\<lambda>e. e \<noteq> c) h)"

text \<open>
  \<open>wraps w e\<close>: the message of \<open>w\<close> is the message of \<open>e\<close> behind a non-empty
  description.
\<close>

definition wraps :: "error \<Rightarrow> error \<Rightarrow> bool" where
  "wraps w e \<longleftrightarrow>
     length (Error e) < length (Error w) \<and>
     drop (length (Error w) - length (Error e)) (Error w) = Error e"

section \<open>The invariant\<close>

definition mount_failure :: "error \<Rightarrow> error" where
  "mount_failure e = errors_New (''bazilfuse.Mount: '' @ Error e)"

definition serve_failure :: "error \<Rightarrow> error" where
  "serve_failure e = errors_New (''Serve: '' @ Error e)"

text \<open>After a failed mount the whole state is a function of the program counter.\<close>

fun failed_ok ::
  "main_pc \<Rightarrow> error \<Rightarrow> error option \<Rightarrow> error option \<Rightarrow> chan \<Rightarrow> event list \<Rightarrow> bool" where
  "failed_ok L88_WriteReadyStatus e me v ch h \<longleftrightarrow>
     me = Some e \<and> v = None \<and> ch = Open \<and> h = [CallMount]"
| "failed_ok L89_CloseReadyStatusAvailable e me v ch h \<longleftrightarrow>
     me = Some e \<and> v = Some (mount_failure e) \<and> ch = Open \<and>
     h = [CallMount, WriteReadyStatus v]"
| "failed_ok Returned e me v ch h \<longleftrightarrow>
     me = Some e \<and> v = Some (mount_failure e) \<and> ch = Closed \<and>
     h = [CallMount, WriteReadyStatus v, CloseReadyStatusAvailable]"
| "failed_ok pc e me v ch h \<longleftrightarrow> False"

definition mount_failed :: "string \<Rightarrow> MountOption list \<Rightarrow> error \<Rightarrow> sys \<Rightarrow> bool" where
  "mount_failed d opts e s \<longleftrightarrow>
     dir (the_mfs s) = d \<and> options s = opts \<and> \<not> crashed s \<and> \<not> panicking s \<and>
     conn s = None \<and> serve_err s = None \<and> ready_pc s = NotStarted \<and>
     joinStatus (the_mfs s) = None \<and> joinStatusAvailable (the_mfs s) = Open \<and>
     failed_ok (main_pc s) e (mount_err s) (readyStatus (the_mfs s))
       (readyStatusAvailable (the_mfs s)) (history s)"

text \<open>
  After a successful mount the two goroutines interleave; what each has done to the
  collaborators, to \<^verbatim>\<open>joinStatus\<close> and to \<^verbatim>\<open>readyStatus\<close> is a function of its own
  program counter.
\<close>

fun expected_calls :: "main_pc \<Rightarrow> error option \<Rightarrow> event list" where
  "expected_calls L97_Go r = [CallMount]"
| "expected_calls L108_Serve r = [CallMount]"
| "expected_calls L108_InServe r = [CallMount, CallServe]"
| "expected_calls L109_WriteJoinStatus r = [CallMount, CallServe, ServeReturned r]"
| "expected_calls L110_CloseJoinStatusAvailable r = [CallMount, CallServe, ServeReturned r]"
| "expected_calls L115_CloseJoinStatusAvailable r = [CallMount, CallServe, ServeReturned r]"
| "expected_calls L93_DeferredClose r = [CallMount, CallServe, ServeReturned r]"
| "expected_calls Returned r = [CallMount, CallServe, ServeReturned r, CallClose]"
| "expected_calls pc r = []"

fun expected_join_events :: "error option \<Rightarrow> event list" where
  "expected_join_events None = [CloseJoinStatusAvailable]"
| "expected_join_events (Some e) =
     [WriteJoinStatus (Some (serve_failure e)), CloseJoinStatusAvailable]"

fun join_ok ::
  "main_pc \<Rightarrow> error option \<Rightarrow> error option \<Rightarrow> chan \<Rightarrow> event list \<Rightarrow> bool" where
  "join_ok L109_WriteJoinStatus r v ch h \<longleftrightarrow>
     r \<noteq> None \<and> v = None \<and> ch = Open \<and> h = []"
| "join_ok L110_CloseJoinStatusAvailable r v ch h \<longleftrightarrow>
     r \<noteq> None \<and> v = map_option serve_failure r \<and> ch = Open \<and> h = [WriteJoinStatus v]"
| "join_ok L93_DeferredClose r v ch h \<longleftrightarrow>
     v = map_option serve_failure r \<and> ch = Closed \<and> h = expected_join_events r"
| "join_ok Returned r v ch h \<longleftrightarrow>
     v = map_option serve_failure r \<and> ch = Closed \<and> h = expected_join_events r"
| "join_ok pc r v ch h \<longleftrightarrow> r = None \<and> v = None \<and> ch = Open \<and> h = []"

fun ready_ok ::
  "ready_pc \<Rightarrow> Conn \<Rightarrow> error option \<Rightarrow> chan \<Rightarrow> event list \<Rightarrow> bool" where
  "ready_ok NotStarted cn v ch h \<longleftrightarrow> v = None \<and> ch = Open \<and> h = []"
| "ready_ok L99_ReceiveReady cn v ch h \<longleftrightarrow> v = None \<and> ch = Open \<and> h = []"
| "ready_ok L102_WriteReadyStatus cn v ch h \<longleftrightarrow>
     Ready cn = Closed \<and> v = None \<and> ch = Open \<and> h = []"
| "ready_ok L103_CloseReadyStatusAvailable cn v ch h \<longleftrightarrow>
     Ready cn = Closed \<and> v = MountError cn \<and> ch = Open \<and> h = [WriteReadyStatus v]"
| "ready_ok Finished cn v ch h \<longleftrightarrow>
     Ready cn = Closed \<and> v = MountError cn \<and> ch = Closed \<and>
     h = [WriteReadyStatus v, CloseReadyStatusAvailable]"

definition mounted :: "string \<Rightarrow> MountOption list \<Rightarrow> sys \<Rightarrow> bool" where
  "mounted d opts s \<longleftrightarrow>
     dir (the_mfs s) = d \<and> options s = opts \<and> \<not> crashed s \<and> \<not> panicking s \<and>
     mount_err s = None \<and>
     main_pc s \<noteq> L86_Mount \<and> main_pc s \<noteq> L88_WriteReadyStatus \<and>
     main_pc s \<noteq> L89_CloseReadyStatusAvailable \<and>
     (ready_pc s = NotStarted \<longleftrightarrow> main_pc s = L97_Go) \<and>
     filter on_collaborators (history s) = expected_calls (main_pc s) (serve_err s) \<and>
     join_ok (main_pc s) (serve_err s) (joinStatus (the_mfs s))
       (joinStatusAvailable (the_mfs s)) (filter on_join (history s)) \<and>
     (\<exists>cn. conn s = Some cn \<and>
        ready_ok (ready_pc s) cn (readyStatus (the_mfs s))
          (readyStatusAvailable (the_mfs s)) (filter on_ready (history s)))"

definition invariant ::
  "(string \<Rightarrow> MountOption list \<Rightarrow> error + Conn) \<Rightarrow> string \<Rightarrow> MountOption list \<Rightarrow> sys \<Rightarrow> bool" where
  "invariant bm d opts s \<longleftrightarrow>
     s = start d opts \<or>
     (case bm d opts of
        Inl e \<Rightarrow> mount_failed d opts e s
      | Inr cn \<Rightarrow> mounted d opts s)"

section \<open>The invariant holds in every reachable state\<close>

lemmas step_defs = step_def mountAndServe_step_def readiness_step_def conn_becomes_ready_def
  serve_returns_def record_event_def write_readyStatus_def write_joinStatus_def

lemma mounted_main:
  "mounted d opts s \<Longrightarrow> mountAndServe_step bm s = Some s' \<Longrightarrow> mounted d opts s'"
  unfolding mounted_def
  by (cases "main_pc s")
     (auto simp: step_defs serve_failure_def split: option.splits)

lemma mounted_readiness:
  "mounted d opts s \<Longrightarrow> readiness_step s = Some s' \<Longrightarrow> mounted d opts s'"
  unfolding mounted_def
  by (cases "ready_pc s")
     (auto simp: step_defs split: option.splits chan.splits)

lemma mounted_conn_ready:
  "mounted d opts s \<Longrightarrow> conn_becomes_ready e s = Some s' \<Longrightarrow> mounted d opts s'"
  unfolding mounted_def
  by (cases "ready_pc s")
     (auto simp: step_defs split: option.splits chan.splits)

lemma mounted_serve_returns:
  "mounted d opts s \<Longrightarrow> serve_returns r s = Some s' \<Longrightarrow> mounted d opts s'"
  unfolding mounted_def
  by (cases "main_pc s")
     (auto simp: step_defs split: option.splits)

lemma mounted_step:
  assumes "mounted d opts s" and "step bm a s = Some s'"
  shows "mounted d opts s'"
proof (cases a)
  case Step_mountAndServe
  with assms(2) have "mountAndServe_step bm s = Some s'"
    by (simp add: step_def split: if_splits)
  with assms(1) show ?thesis by (rule mounted_main)
next
  case Step_readiness
  with assms(2) have "readiness_step s = Some s'"
    by (simp add: step_def split: if_splits)
  with assms(1) show ?thesis by (rule mounted_readiness)
next
  case (Conn_becomes_ready e)
  with assms(2) have "conn_becomes_ready e s = Some s'"
    by (simp add: step_def split: if_splits)
  with assms(1) show ?thesis by (rule mounted_conn_ready)
next
  case (Serve_returns r)
  with assms(2) have "serve_returns r s = Some s'"
    by (simp add: step_def split: if_splits)
  with assms(1) show ?thesis by (rule mounted_serve_returns)
qed

lemma mount_failed_step:
  "mount_failed d opts e s \<Longrightarrow> step bm a s = Some s' \<Longrightarrow> mount_failed d opts e s'"
  unfolding mount_failed_def
  by (cases a; cases "main_pc s")
     (auto simp: step_defs mount_failure_def split: if_splits)

lemma start_step:
  "step bm a (start d opts) = Some s' \<Longrightarrow>
     (case bm d opts of Inl e \<Rightarrow> mount_failed d opts e s' | Inr cn \<Rightarrow> mounted d opts s')"
  by (cases a)
     (auto simp: step_defs start_def mount_failed_def mounted_def split: sum.splits)

lemma invariant_step:
  assumes "invariant bm d opts s" and "step bm a s = Some s'"
  shows "invariant bm d opts s'"
proof (cases "s = start d opts")
  case True
  with assms(2) show ?thesis
    using start_step [of bm a d opts s'] by (simp add: invariant_def)
next
  case False
  show ?thesis
  proof (cases "bm d opts")
    case (Inl e)
    with assms(1) False have "mount_failed d opts e s"
      by (simp add: invariant_def)
    then have "mount_failed d opts e s'"
      using assms(2) by (rule mount_failed_step)
    with Inl show ?thesis by (simp add: invariant_def)
  next
    case (Inr cn)
    with assms(1) False have "mounted d opts s"
      by (simp add: invariant_def)
    then have "mounted d opts s'"
      using assms(2) by (rule mounted_step)
    with Inr show ?thesis by (simp add: invariant_def)
  qed
qed

lemma invariant_exec:
  "invariant bm d opts s \<Longrightarrow> exec bm as s = Some s' \<Longrightarrow> invariant bm d opts s'"
proof (induction as arbitrary: s)
  case Nil
  then show ?case by simp
next
  case (Cons a as)
  from Cons.prems(2) obtain s1 where s1: "step bm a s = Some s1" "exec bm as s1 = Some s'"
    by (auto split: option.splits)
  from Cons.prems(1) s1(1) have "invariant bm d opts s1"
    by (rule invariant_step)
  then show ?case using s1(2) by (rule Cons.IH)
qed

lemma reachable_invariant:
  "exec bm as (start d opts) = Some s \<Longrightarrow> invariant bm d opts s"
  using invariant_exec [of bm d opts "start d opts" as s]
  by (simp add: invariant_def)

section \<open>Executions\<close>

lemma exec_append:
  "exec bm (xs @ ys) s = (case exec bm xs s of None \<Rightarrow> None | Some s1 \<Rightarrow> exec bm ys s1)"
  by (induction xs arbitrary: s) (auto split: option.splits)

subsection \<open>The history only grows\<close>

lemma step_history:
  "step bm a s = Some s' \<Longrightarrow> \<exists>es. history s' = history s @ es"
  by (cases a; cases "main_pc s"; cases "ready_pc s")
     (auto simp: step_defs split: if_splits option.splits sum.splits chan.splits)

lemma exec_history:
  "exec bm as s = Some s' \<Longrightarrow> \<exists>es. history s' = history s @ es"
proof (induction as arbitrary: s)
  case Nil
  then show ?case by simp
next
  case (Cons a as)
  from Cons.prems obtain s1 where s1: "step bm a s = Some s1" "exec bm as s1 = Some s'"
    by (auto split: option.splits)
  from s1(1) obtain es1 where "history s1 = history s @ es1"
    using step_history by blast
  moreover from Cons.IH [OF s1(2)] obtain es2 where "history s' = history s1 @ es2"
    by blast
  ultimately show ?case by simp
qed

lemma serve_returns_logged:
  "step bm (Serve_returns r) s = Some s' \<Longrightarrow> ServeReturned r \<in> set (history s')"
  by (cases "main_pc s") (auto simp: step_defs split: if_splits)

lemma schedule_serve_returned:
  "exec bm as s = Some s' \<Longrightarrow> Serve_returns r \<in> set as \<Longrightarrow> ServeReturned r \<in> set (history s')"
proof (induction as arbitrary: s)
  case Nil
  then show ?case by simp
next
  case (Cons a as)
  from Cons.prems(1) obtain s1 where s1: "step bm a s = Some s1" "exec bm as s1 = Some s'"
    by (auto split: option.splits)
  show ?case
  proof (cases "Serve_returns r \<in> set as")
    case True
    with Cons.IH s1(2) show ?thesis by blast
  next
    case False
    with Cons.prems(2) have "a = Serve_returns r" by simp
    with s1(1) have "ServeReturned r \<in> set (history s1)"
      using serve_returns_logged by blast
    moreover from exec_history [OF s1(2)] obtain es where "history s' = history s1 @ es"
      by blast
    ultimately show ?thesis by simp
  qed
qed

lemma mounted_serve_returned:
  assumes "mounted d opts s" and "ServeReturned r \<in> set (history s)"
  shows "serve_err s = r \<and>
         main_pc s \<in> {L109_WriteJoinStatus, L110_CloseJoinStatusAvailable,
           L115_CloseJoinStatusAvailable, L93_DeferredClose, Returned}"
proof -
  from assms(2) have "ServeReturned r \<in> set (filter on_collaborators (history s))"
    by simp
  with assms(1) have "ServeReturned r \<in> set (expected_calls (main_pc s) (serve_err s))"
    by (simp add: mounted_def)
  then show ?thesis
    by (cases "main_pc s") auto
qed

lemma mount_failed_no_serve:
  "mount_failed d opts e s \<Longrightarrow> set (history s) \<subseteq>
     {CallMount, WriteReadyStatus (Some (mount_failure e)), CloseReadyStatusAvailable}"
  unfolding mount_failed_def
  by (cases "main_pc s") auto

subsection \<open>The history misses no change of the struct\<close>

lemma ready_change_recorded:
  assumes "step bm a s = Some s'"
    and "readyStatus (the_mfs s') \<noteq> readyStatus (the_mfs s) \<or>
         readyStatusAvailable (the_mfs s') \<noteq> readyStatusAvailable (the_mfs s)"
  shows "history s' = history s @ [WriteReadyStatus (readyStatus (the_mfs s'))] \<or>
         history s' = history s @ [CloseReadyStatusAvailable]"
proof (cases a)
  case Step_mountAndServe
  with assms show ?thesis
    by (cases "main_pc s")
       (auto simp: step_defs split: if_splits option.splits sum.splits)
next
  case Step_readiness
  with assms show ?thesis
    by (cases "ready_pc s")
       (auto simp: step_defs split: if_splits option.splits chan.splits)
next
  case (Conn_becomes_ready e)
  with assms show ?thesis
    by (auto simp: step_defs split: if_splits option.splits chan.splits)
next
  case (Serve_returns r)
  with assms show ?thesis
    by (cases "main_pc s") (auto simp: step_defs split: if_splits)
qed

lemma join_change_recorded:
  assumes "step bm a s = Some s'"
    and "joinStatus (the_mfs s') \<noteq> joinStatus (the_mfs s) \<or>
         joinStatusAvailable (the_mfs s') \<noteq> joinStatusAvailable (the_mfs s)"
  shows "history s' = history s @ [WriteJoinStatus (joinStatus (the_mfs s'))] \<or>
         history s' = history s @ [CloseJoinStatusAvailable]"
proof (cases a)
  case Step_mountAndServe
  with assms show ?thesis
    by (cases "main_pc s")
       (auto simp: step_defs split: if_splits option.splits sum.splits)
next
  case Step_readiness
  with assms show ?thesis
    by (cases "ready_pc s")
       (auto simp: step_defs split: if_splits option.splits chan.splits)
next
  case (Conn_becomes_ready e)
  with assms show ?thesis
    by (auto simp: step_defs split: if_splits option.splits chan.splits)
next
  case (Serve_returns r)
  with assms show ?thesis
    by (cases "main_pc s") (auto simp: step_defs split: if_splits)
qed

subsection \<open>Once a channel is closed, its field is frozen\<close>

lemma ready_closed_cases:
  assumes "invariant bm d opts s" and "readyStatusAvailable (the_mfs s) = Closed"
  shows "(main_pc s = Returned \<and> ready_pc s = NotStarted \<and> conn s = None) \<or>
         (ready_pc s = Finished \<and> main_pc s \<noteq> L88_WriteReadyStatus \<and>
          main_pc s \<noteq> L89_CloseReadyStatusAvailable)"
proof -
  from assms(2) have "s \<noteq> start d opts" by (auto simp: start_def)
  with assms(1) consider e where "mount_failed d opts e s" | "mounted d opts s"
    by (auto simp: invariant_def split: sum.splits)
  then show ?thesis
  proof cases
    case 1
    with assms(2) show ?thesis
      unfolding mount_failed_def by (cases "main_pc s") auto
  next
    case 2
    with assms(2) show ?thesis
      unfolding mounted_def by (cases "ready_pc s") auto
  qed
qed

lemma main_step_keeps_ready:
  "mountAndServe_step bm s = Some s' \<Longrightarrow> main_pc s \<noteq> L88_WriteReadyStatus \<Longrightarrow>
   main_pc s \<noteq> L89_CloseReadyStatusAvailable \<Longrightarrow>
   readyStatus (the_mfs s') = readyStatus (the_mfs s) \<and>
   readyStatusAvailable (the_mfs s') = readyStatusAvailable (the_mfs s)"
  by (cases "main_pc s") (auto simp: step_defs split: option.splits sum.splits)

lemma ready_frozen_step:
  assumes "invariant bm d opts s" and "readyStatusAvailable (the_mfs s) = Closed"
    and "step bm a s = Some s'"
  shows "readyStatus (the_mfs s') = readyStatus (the_mfs s) \<and>
         readyStatusAvailable (the_mfs s') = Closed"
proof (cases a)
  case Step_mountAndServe
  with assms(3) have st: "mountAndServe_step bm s = Some s'"
    by (simp add: step_def split: if_splits)
  then have "main_pc s \<noteq> Returned" by (auto simp: mountAndServe_step_def)
  with ready_closed_cases [OF assms(1,2)] main_step_keeps_ready [OF st] assms(2)
  show ?thesis by auto
next
  case Step_readiness
  with assms(3) have st: "readiness_step s = Some s'"
    by (simp add: step_def split: if_splits)
  then have "ready_pc s \<noteq> Finished \<and> ready_pc s \<noteq> NotStarted"
    by (auto simp: readiness_step_def)
  with ready_closed_cases [OF assms(1,2)] show ?thesis by auto
next
  case (Conn_becomes_ready e)
  with assms(2,3) show ?thesis
    by (auto simp: step_defs split: if_splits option.splits chan.splits)
next
  case (Serve_returns r)
  with assms(2,3) show ?thesis
    by (cases "main_pc s") (auto simp: step_defs split: if_splits)
qed

lemma ready_frozen_exec:
  "invariant bm d opts s \<Longrightarrow> readyStatusAvailable (the_mfs s) = Closed \<Longrightarrow>
   exec bm as s = Some s' \<Longrightarrow>
   readyStatus (the_mfs s') = readyStatus (the_mfs s) \<and>
   readyStatusAvailable (the_mfs s') = Closed"
proof (induction as arbitrary: s)
  case Nil
  then show ?case by simp
next
  case (Cons a as)
  from Cons.prems(3) obtain s1 where s1: "step bm a s = Some s1" "exec bm as s1 = Some s'"
    by (auto split: option.splits)
  have inv1: "invariant bm d opts s1"
    using Cons.prems(1) s1(1) by (rule invariant_step)
  have fr: "readyStatus (the_mfs s1) = readyStatus (the_mfs s) \<and>
            readyStatusAvailable (the_mfs s1) = Closed"
    using Cons.prems(1,2) s1(1) by (rule ready_frozen_step)
  with Cons.IH [OF inv1 _ s1(2)] show ?case by simp
qed

lemma join_closed_cases:
  assumes "invariant bm d opts s" and "joinStatusAvailable (the_mfs s) = Closed"
  shows "mounted d opts s \<and> (main_pc s = L93_DeferredClose \<or> main_pc s = Returned)"
proof -
  from assms(2) have "s \<noteq> start d opts" by (auto simp: start_def)
  with assms(1) consider e where "mount_failed d opts e s" | "mounted d opts s"
    by (auto simp: invariant_def split: sum.splits)
  then show ?thesis
  proof cases
    case 1
    with assms(2) show ?thesis by (simp add: mount_failed_def)
  next
    case 2
    with assms(2) show ?thesis
      unfolding mounted_def by (cases "main_pc s") auto
  qed
qed

lemma join_frozen_step:
  assumes "invariant bm d opts s" and "joinStatusAvailable (the_mfs s) = Closed"
    and "step bm a s = Some s'"
  shows "joinStatus (the_mfs s') = joinStatus (the_mfs s) \<and>
         joinStatusAvailable (the_mfs s') = Closed"
proof (cases a)
  case Step_mountAndServe
  with assms(3) join_closed_cases [OF assms(1,2)] assms(2) show ?thesis
    by (auto simp: step_defs split: if_splits)
next
  case Step_readiness
  with assms(2,3) show ?thesis
    by (cases "ready_pc s") (auto simp: step_defs split: if_splits option.splits chan.splits)
next
  case (Conn_becomes_ready e)
  with assms(2,3) show ?thesis
    by (auto simp: step_defs split: if_splits option.splits chan.splits)
next
  case (Serve_returns r)
  with assms(3) join_closed_cases [OF assms(1,2)] show ?thesis
    by (auto simp: step_defs split: if_splits)
qed

lemma join_frozen_exec:
  "invariant bm d opts s \<Longrightarrow> joinStatusAvailable (the_mfs s) = Closed \<Longrightarrow>
   exec bm as s = Some s' \<Longrightarrow>
   joinStatus (the_mfs s') = joinStatus (the_mfs s) \<and>
   joinStatusAvailable (the_mfs s') = Closed"
proof (induction as arbitrary: s)
  case Nil
  then show ?case by simp
next
  case (Cons a as)
  from Cons.prems(3) obtain s1 where s1: "step bm a s = Some s1" "exec bm as s1 = Some s'"
    by (auto split: option.splits)
  have inv1: "invariant bm d opts s1"
    using Cons.prems(1) s1(1) by (rule invariant_step)
  have fr: "joinStatus (the_mfs s1) = joinStatus (the_mfs s) \<and>
            joinStatusAvailable (the_mfs s1) = Closed"
    using Cons.prems(1,2) s1(1) by (rule join_frozen_step)
  with Cons.IH [OF inv1 _ s1(2)] show ?case by simp
qed

subsection \<open>Lists: reading one field's events off the whole history\<close>

lemma filter_after_first:
  "P c \<Longrightarrow> filter P (after_first c h) = after_first c (filter P h)"
  unfolding after_first_def by (induction h) auto

lemma count_list_filter:
  "P c \<Longrightarrow> count_list (filter P h) c = count_list h c"
  by (induction h) auto

lemma writes_ready_filter:
  "filter writes_readyStatus (filter on_ready h) = filter writes_readyStatus h"
proof -
  have "\<And>e. (on_ready e \<and> writes_readyStatus e) = writes_readyStatus e"
    by (case_tac e) auto
  then show ?thesis by (simp add: filter_filter)
qed

lemma writes_join_filter:
  "filter writes_joinStatus (filter on_join h) = filter writes_joinStatus h"
proof -
  have "\<And>e. (on_join e \<and> writes_joinStatus e) = writes_joinStatus e"
    by (case_tac e) auto
  then show ?thesis by (simp add: filter_filter)
qed

subsection \<open>The shape of each field's events\<close>

lemma ready_shape:
  assumes "invariant bm d opts s"
  shows "(readyStatusAvailable (the_mfs s) = Open \<and> readyStatus (the_mfs s) = None \<and>
            filter on_ready (history s) = []) \<or>
         (readyStatusAvailable (the_mfs s) = Open \<and>
            filter on_ready (history s) = [WriteReadyStatus (readyStatus (the_mfs s))]) \<or>
         (readyStatusAvailable (the_mfs s) = Closed \<and>
            filter on_ready (history s) =
              [WriteReadyStatus (readyStatus (the_mfs s)), CloseReadyStatusAvailable])"
proof -
  from assms consider "s = start d opts" | e where "mount_failed d opts e s" | "mounted d opts s"
    by (auto simp: invariant_def split: sum.splits)
  then show ?thesis
  proof cases
    case 1
    then show ?thesis by (simp add: start_def)
  next
    case 2
    then show ?thesis
      unfolding mount_failed_def by (cases "main_pc s") auto
  next
    case 3
    then show ?thesis
      unfolding mounted_def by (cases "ready_pc s") auto
  qed
qed

lemma join_shape:
  assumes "invariant bm d opts s"
  shows "(joinStatusAvailable (the_mfs s) = Open \<and> joinStatus (the_mfs s) = None \<and>
            filter on_join (history s) = []) \<or>
         (joinStatusAvailable (the_mfs s) = Open \<and>
            filter on_join (history s) = [WriteJoinStatus (joinStatus (the_mfs s))]) \<or>
         (joinStatusAvailable (the_mfs s) = Closed \<and> joinStatus (the_mfs s) = None \<and>
            filter on_join (history s) = [CloseJoinStatusAvailable]) \<or>
         (joinStatusAvailable (the_mfs s) = Closed \<and>
            filter on_join (history s) =
              [WriteJoinStatus (joinStatus (the_mfs s)), CloseJoinStatusAvailable])"
proof -
  from assms consider "s = start d opts" | e where "mount_failed d opts e s" | "mounted d opts s"
    by (auto simp: invariant_def split: sum.splits)
  then show ?thesis
  proof cases
    case 1
    then show ?thesis by (simp add: start_def)
  next
    case 2
    then show ?thesis
      unfolding mount_failed_def by (cases "main_pc s") auto
  next
    case 3
    then show ?thesis
      unfolding mounted_def by (cases "main_pc s"; cases "serve_err s") auto
  qed
qed

lemma never_panics:
  assumes "invariant bm d opts s"
  shows "\<not> crashed s \<and> \<not> panicking s"
  using assms
  by (auto simp: invariant_def start_def mount_failed_def mounted_def split: sum.splits)

lemma ready_once:
  assumes "invariant bm d opts s"
  shows "length (filter writes_readyStatus (history s)) \<le> 1 \<and>
         filter writes_readyStatus (after_first CloseReadyStatusAvailable (history s)) = [] \<and>
         count_list (history s) CloseReadyStatusAvailable \<le> 1 \<and>
         (CloseReadyStatusAvailable \<in> set (history s) \<longleftrightarrow>
            readyStatusAvailable (the_mfs s) = Closed)"
proof -
  define h where "h = filter on_ready (history s)"
  have 1: "filter writes_readyStatus (history s) = filter writes_readyStatus h"
    unfolding h_def by (simp only: writes_ready_filter)
  have 2: "filter writes_readyStatus (after_first CloseReadyStatusAvailable (history s)) =
           filter writes_readyStatus (after_first CloseReadyStatusAvailable h)"
  proof -
    have "filter writes_readyStatus (after_first CloseReadyStatusAvailable (history s)) =
          filter writes_readyStatus
            (filter on_ready (after_first CloseReadyStatusAvailable (history s)))"
      by (simp only: writes_ready_filter)
    then show ?thesis unfolding h_def by (simp add: filter_after_first)
  qed
  have 3: "count_list (history s) CloseReadyStatusAvailable =
           count_list h CloseReadyStatusAvailable"
    unfolding h_def by (simp add: count_list_filter)
  have 4: "CloseReadyStatusAvailable \<in> set (history s) \<longleftrightarrow>
           CloseReadyStatusAvailable \<in> set h"
    unfolding h_def by simp
  from ready_shape [OF assms]
  have "(readyStatusAvailable (the_mfs s) = Open \<and> h = []) \<or>
        (readyStatusAvailable (the_mfs s) = Open \<and>
           h = [WriteReadyStatus (readyStatus (the_mfs s))]) \<or>
        (readyStatusAvailable (the_mfs s) = Closed \<and>
           h = [WriteReadyStatus (readyStatus (the_mfs s)), CloseReadyStatusAvailable])"
    unfolding h_def by blast
  then show ?thesis
    unfolding 1 2 3 4 by (auto simp: after_first_def)
qed

lemma join_once:
  assumes "invariant bm d opts s"
  shows "length (filter writes_joinStatus (history s)) \<le> 1 \<and>
         filter writes_joinStatus (after_first CloseJoinStatusAvailable (history s)) = [] \<and>
         count_list (history s) CloseJoinStatusAvailable \<le> 1 \<and>
         (CloseJoinStatusAvailable \<in> set (history s) \<longleftrightarrow>
            joinStatusAvailable (the_mfs s) = Closed)"
proof -
  define h where "h = filter on_join (history s)"
  have 1: "filter writes_joinStatus (history s) = filter writes_joinStatus h"
    unfolding h_def by (simp only: writes_join_filter)
  have 2: "filter writes_joinStatus (after_first CloseJoinStatusAvailable (history s)) =
           filter writes_joinStatus (after_first CloseJoinStatusAvailable h)"
  proof -
    have "filter writes_joinStatus (after_first CloseJoinStatusAvailable (history s)) =
          filter writes_joinStatus
            (filter on_join (after_first CloseJoinStatusAvailable (history s)))"
      by (simp only: writes_join_filter)
    then show ?thesis unfolding h_def by (simp add: filter_after_first)
  qed
  have 3: "count_list (history s) CloseJoinStatusAvailable =
           count_list h CloseJoinStatusAvailable"
    unfolding h_def by (simp add: count_list_filter)
  have 4: "CloseJoinStatusAvailable \<in> set (history s) \<longleftrightarrow>
           CloseJoinStatusAvailable \<in> set h"
    unfolding h_def by simp
  from join_shape [OF assms]
  have "(joinStatusAvailable (the_mfs s) = Open \<and> h = []) \<or>
        (joinStatusAvailable (the_mfs s) = Open \<and>
           h = [WriteJoinStatus (joinStatus (the_mfs s))]) \<or>
        (joinStatusAvailable (the_mfs s) = Closed \<and> h = [CloseJoinStatusAvailable]) \<or>
        (joinStatusAvailable (the_mfs s) = Closed \<and>
           h = [WriteJoinStatus (joinStatus (the_mfs s)), CloseJoinStatusAvailable])"
    unfolding h_def by blast
  then show ?thesis
    unfolding 1 2 3 4 by (auto simp: after_first_def)
qed

subsection \<open>Progress: a goroutine that can run reaches its end\<close>

lemma exec_replicate_Suc:
  "step bm a s = Some s1 \<Longrightarrow> exec bm (replicate n a) s1 = Some s' \<Longrightarrow>
   exec bm (replicate (Suc n) a) s = Some s'"
  by simp

lemma main_step_L93:
  "mounted d opts s \<Longrightarrow> main_pc s = L93_DeferredClose \<Longrightarrow>
   \<exists>s'. step bm Step_mountAndServe s = Some s' \<and> main_pc s' = Returned"
  by (simp add: step_defs mounted_def)

lemma main_step_L110:
  "mounted d opts s \<Longrightarrow> main_pc s = L110_CloseJoinStatusAvailable \<Longrightarrow>
   \<exists>s'. step bm Step_mountAndServe s = Some s' \<and> main_pc s' = L93_DeferredClose"
  by (simp add: step_defs mounted_def)

lemma main_step_L115:
  "mounted d opts s \<Longrightarrow> main_pc s = L115_CloseJoinStatusAvailable \<Longrightarrow>
   \<exists>s'. step bm Step_mountAndServe s = Some s' \<and> main_pc s' = L93_DeferredClose"
  by (simp add: step_defs mounted_def)

lemma main_step_L109:
  "mounted d opts s \<Longrightarrow> main_pc s = L109_WriteJoinStatus \<Longrightarrow>
   \<exists>s'. step bm Step_mountAndServe s = Some s' \<and> main_pc s' = L110_CloseJoinStatusAvailable"
  by (auto simp: step_defs mounted_def)

lemma main_finishes_L93:
  assumes "mounted d opts s" and "main_pc s = L93_DeferredClose"
  shows "\<exists>n s'. exec bm (replicate n Step_mountAndServe) s = Some s' \<and> main_pc s' = Returned"
proof -
  from main_step_L93 [OF assms] obtain s1 where
    "step bm Step_mountAndServe s = Some s1" "main_pc s1 = Returned" by blast
  then have "exec bm (replicate 1 Step_mountAndServe) s = Some s1" by simp
  with \<open>main_pc s1 = Returned\<close> show ?thesis by blast
qed

lemma main_finishes_close:
  assumes "mounted d opts s"
    and "main_pc s = L110_CloseJoinStatusAvailable \<or> main_pc s = L115_CloseJoinStatusAvailable"
  shows "\<exists>n s'. exec bm (replicate n Step_mountAndServe) s = Some s' \<and> main_pc s' = Returned"
proof -
  from assms main_step_L110 [of d opts s bm] main_step_L115 [of d opts s bm] obtain s1 where
    s1: "step bm Step_mountAndServe s = Some s1" "main_pc s1 = L93_DeferredClose" by blast
  from assms(1) s1(1) have "mounted d opts s1" by (rule mounted_step)
  from main_finishes_L93 [OF this s1(2)] obtain n s' where
    "exec bm (replicate n Step_mountAndServe) s1 = Some s'" "main_pc s' = Returned" by blast
  with s1(1) have "exec bm (replicate (Suc n) Step_mountAndServe) s = Some s'"
    by (simp only: exec_replicate_Suc)
  with \<open>main_pc s' = Returned\<close> show ?thesis by blast
qed

lemma main_finishes:
  assumes "mounted d opts s"
    and "main_pc s \<in> {L109_WriteJoinStatus, L110_CloseJoinStatusAvailable,
           L115_CloseJoinStatusAvailable, L93_DeferredClose, Returned}"
  shows "\<exists>n s'. exec bm (replicate n Step_mountAndServe) s = Some s' \<and> main_pc s' = Returned"
proof -
  consider "main_pc s = Returned" | "main_pc s = L93_DeferredClose"
    | "main_pc s = L110_CloseJoinStatusAvailable \<or> main_pc s = L115_CloseJoinStatusAvailable"
    | "main_pc s = L109_WriteJoinStatus"
    using assms(2) by auto
  then show ?thesis
  proof cases
    case 1
    then have "exec bm (replicate 0 Step_mountAndServe) s = Some s \<and> main_pc s = Returned"
      by simp
    then show ?thesis by blast
  next
    case 2
    with assms(1) show ?thesis by (rule main_finishes_L93)
  next
    case 3
    with assms(1) show ?thesis by (rule main_finishes_close)
  next
    case 4
    from main_step_L109 [OF assms(1) 4] obtain s1 where
      s1: "step bm Step_mountAndServe s = Some s1" "main_pc s1 = L110_CloseJoinStatusAvailable"
      by blast
    from assms(1) s1(1) have "mounted d opts s1" by (rule mounted_step)
    from main_finishes_close [OF this] s1(2) obtain n s' where
      "exec bm (replicate n Step_mountAndServe) s1 = Some s'" "main_pc s' = Returned" by blast
    with s1(1) have "exec bm (replicate (Suc n) Step_mountAndServe) s = Some s'"
      by (simp only: exec_replicate_Suc)
    with \<open>main_pc s' = Returned\<close> show ?thesis by blast
  qed
qed

lemma failed_finishes:
  assumes "bm d opts = Inl e" and "invariant bm d opts s"
  shows "\<exists>n s'. exec bm (replicate n Step_mountAndServe) s = Some s' \<and> main_pc s' = Returned"
proof -
  have fin: "\<exists>n s'. exec bm (replicate n Step_mountAndServe) t = Some s' \<and> main_pc s' = Returned"
    if t: "mount_failed d opts e t" for t
  proof -
    from t consider "main_pc t = Returned" | "main_pc t = L89_CloseReadyStatusAvailable"
      | "main_pc t = L88_WriteReadyStatus"
      unfolding mount_failed_def by (cases "main_pc t") auto
    then show ?thesis
    proof cases
      case 1
      then have "exec bm (replicate 0 Step_mountAndServe) t = Some t \<and> main_pc t = Returned"
        by simp
      then show ?thesis by blast
    next
      case 2
      with t have "\<exists>s'. exec bm (replicate 1 Step_mountAndServe) t = Some s' \<and>
                     main_pc s' = Returned"
        by (simp add: step_defs mount_failed_def)
      then show ?thesis by blast
    next
      case 3
      with t have "\<exists>s'. exec bm (replicate 2 Step_mountAndServe) t = Some s' \<and>
                     main_pc s' = Returned"
        by (simp add: step_defs mount_failed_def numeral_2_eq_2)
      then show ?thesis by blast
    qed
  qed
  show ?thesis
  proof (cases "s = start d opts")
    case True
    with assms(1) obtain s1 where s1: "step bm Step_mountAndServe s = Some s1"
      by (simp add: step_defs start_def)
    with True assms(1) have "mount_failed d opts e s1"
      using start_step [of bm Step_mountAndServe d opts s1] by simp
    from fin [OF this] obtain n s' where
      "exec bm (replicate n Step_mountAndServe) s1 = Some s'" "main_pc s' = Returned" by blast
    with s1 have "exec bm (replicate (Suc n) Step_mountAndServe) s = Some s'"
      by (simp only: exec_replicate_Suc)
    with \<open>main_pc s' = Returned\<close> show ?thesis by blast
  next
    case False
    with assms have "mount_failed d opts e s" by (simp add: invariant_def)
    then show ?thesis by (rule fin)
  qed
qed

lemma readiness_step_L103:
  "mounted d opts s \<Longrightarrow> ready_pc s = L103_CloseReadyStatusAvailable \<Longrightarrow>
   \<exists>s'. step bm Step_readiness s = Some s' \<and> ready_pc s' = Finished"
  by (auto simp: step_defs mounted_def)

lemma readiness_step_L102:
  "mounted d opts s \<Longrightarrow> ready_pc s = L102_WriteReadyStatus \<Longrightarrow>
   \<exists>s'. step bm Step_readiness s = Some s' \<and> ready_pc s' = L103_CloseReadyStatusAvailable"
  by (auto simp: step_defs mounted_def)

lemma readiness_step_L99:
  "mounted d opts s \<Longrightarrow> ready_pc s = L99_ReceiveReady \<Longrightarrow> conn s = Some cn \<Longrightarrow>
   Ready cn = Closed \<Longrightarrow>
   \<exists>s'. step bm Step_readiness s = Some s' \<and> ready_pc s' = L102_WriteReadyStatus"
  by (auto simp: step_defs mounted_def)

lemma readiness_finishes_L103:
  assumes "mounted d opts s" and "ready_pc s = L103_CloseReadyStatusAvailable"
  shows "\<exists>n s'. exec bm (replicate n Step_readiness) s = Some s' \<and> ready_pc s' = Finished"
proof -
  from readiness_step_L103 [OF assms] obtain s1 where
    "step bm Step_readiness s = Some s1" "ready_pc s1 = Finished" by blast
  then have "exec bm (replicate 1 Step_readiness) s = Some s1" by simp
  with \<open>ready_pc s1 = Finished\<close> show ?thesis by blast
qed

lemma readiness_finishes_L102:
  assumes "mounted d opts s" and "ready_pc s = L102_WriteReadyStatus"
  shows "\<exists>n s'. exec bm (replicate n Step_readiness) s = Some s' \<and> ready_pc s' = Finished"
proof -
  from readiness_step_L102 [OF assms] obtain s1 where
    s1: "step bm Step_readiness s = Some s1" "ready_pc s1 = L103_CloseReadyStatusAvailable"
    by blast
  from assms(1) s1(1) have "mounted d opts s1" by (rule mounted_step)
  from readiness_finishes_L103 [OF this s1(2)] obtain n s' where
    "exec bm (replicate n Step_readiness) s1 = Some s'" "ready_pc s' = Finished" by blast
  with s1(1) have "exec bm (replicate (Suc n) Step_readiness) s = Some s'"
    by (simp only: exec_replicate_Suc)
  with \<open>ready_pc s' = Finished\<close> show ?thesis by blast
qed

lemma readiness_finishes:
  assumes "mounted d opts s" and "ready_pc s \<noteq> NotStarted"
    and "conn s = Some cn" and "Ready cn = Closed"
  shows "\<exists>n s'. exec bm (replicate n Step_readiness) s = Some s' \<and> ready_pc s' = Finished"
proof (cases "ready_pc s")
  case NotStarted
  with assms(2) show ?thesis by simp
next
  case L99_ReceiveReady
  from readiness_step_L99 [OF assms(1) this assms(3,4)] obtain s1 where
    s1: "step bm Step_readiness s = Some s1" "ready_pc s1 = L102_WriteReadyStatus" by blast
  from assms(1) s1(1) have "mounted d opts s1" by (rule mounted_step)
  from readiness_finishes_L102 [OF this s1(2)] obtain n s' where
    "exec bm (replicate n Step_readiness) s1 = Some s'" "ready_pc s' = Finished" by blast
  with s1(1) have "exec bm (replicate (Suc n) Step_readiness) s = Some s'"
    by (simp only: exec_replicate_Suc)
  with \<open>ready_pc s' = Finished\<close> show ?thesis by blast
next
  case L102_WriteReadyStatus
  with assms(1) show ?thesis by (rule readiness_finishes_L102)
next
  case L103_CloseReadyStatusAvailable
  with assms(1) show ?thesis by (rule readiness_finishes_L103)
next
  case Finished
  then have "exec bm (replicate 0 Step_readiness) s = Some s \<and> ready_pc s = Finished"
    by simp
  then show ?thesis by blast
qed

subsection \<open>A ready connection does not change\<close>

lemma conn_ready_stable_step:
  assumes "invariant bm d opts s" and "conn s = Some cn" and "Ready cn = Closed"
    and "step bm a s = Some s'"
  shows "conn s' = Some cn"
proof -
  from assms(2) have "s \<noteq> start d opts" by (auto simp: start_def)
  with assms(1,2) have m: "mounted d opts s"
    by (auto simp: invariant_def mount_failed_def split: sum.splits)
  show ?thesis
  proof (cases a)
    case Step_mountAndServe
    with assms(2,4) m show ?thesis
      by (cases "main_pc s") (auto simp: step_defs mounted_def split: if_splits option.splits)
  next
    case Step_readiness
    with assms(2,4) show ?thesis
      by (cases "ready_pc s")
         (auto simp: step_defs split: if_splits option.splits chan.splits)
  next
    case (Conn_becomes_ready e)
    with assms(2,3,4) show ?thesis
      by (auto simp: step_defs split: if_splits)
  next
    case (Serve_returns r)
    with assms(2,4) show ?thesis
      by (cases "main_pc s") (auto simp: step_defs split: if_splits)
  qed
qed

lemma conn_ready_stable_exec:
  "invariant bm d opts s \<Longrightarrow> conn s = Some cn \<Longrightarrow> Ready cn = Closed \<Longrightarrow>
   exec bm as s = Some s' \<Longrightarrow> conn s' = Some cn"
proof (induction as arbitrary: s)
  case Nil
  then show ?case by simp
next
  case (Cons a as)
  from Cons.prems(4) obtain s1 where s1: "step bm a s = Some s1" "exec bm as s1 = Some s'"
    by (auto split: option.splits)
  have inv1: "invariant bm d opts s1"
    using Cons.prems(1) s1(1) by (rule invariant_step)
  have "conn s1 = Some cn"
    using Cons.prems(1,2,3) s1(1) by (rule conn_ready_stable_step)
  from Cons.IH [OF inv1 this Cons.prems(3) s1(2)] show ?case .
qed

lemma conn_becomes_ready_sets:
  "step bm (Conn_becomes_ready e) s = Some s' \<Longrightarrow>
   \<exists>cn. conn s' = Some cn \<and> Ready cn = Closed \<and> MountError cn = e"
  by (auto simp: step_defs split: if_splits option.splits chan.splits)

lemma schedule_conn_ready:
  assumes "exec bm as (start d opts) = Some s" and "Conn_becomes_ready e \<in> set as"
  shows "\<exists>cn. conn s = Some cn \<and> Ready cn = Closed \<and> MountError cn = e"
proof -
  from assms(2) obtain xs ys where as: "as = xs @ Conn_becomes_ready e # ys"
    by (auto dest: split_list)
  with assms(1) obtain s1 s2 where
    s1: "exec bm xs (start d opts) = Some s1" and
    s2: "step bm (Conn_becomes_ready e) s1 = Some s2" and
    s3: "exec bm ys s2 = Some s"
    by (auto simp: exec_append split: option.splits)
  from s1 have "invariant bm d opts s1" by (rule reachable_invariant)
  then have inv2: "invariant bm d opts s2" using s2 by (rule invariant_step)
  from conn_becomes_ready_sets [OF s2] obtain cn where
    cn: "conn s2 = Some cn" "Ready cn = Closed" "MountError cn = e" by blast
  from conn_ready_stable_exec [OF inv2 cn(1,2) s3] cn show ?thesis by simp
qed

section \<open>Cancelled waits\<close>

text \<open>
  C7. A \<^verbatim>\<open>WaitForReady\<close> or \<^verbatim>\<open>Join\<close> call whose context is done while the channel it
  waits on is still open returns \<^verbatim>\<open>ctx.Err()\<close>, whatever the \<^verbatim>\<open>select\<close> would pick, and
  the struct is as it was: both outcome fields keep their values.
\<close>

theorem cancelled_wait_returns_ctx_err:
  "(Done ctx = Closed \<and> readyStatusAvailable m = Open \<longrightarrow>
      WaitForReady m ctx pick = (Returns (Err ctx), m)) \<and>
   (Done ctx = Closed \<and> joinStatusAvailable m = Open \<longrightarrow>
      Join m ctx pick = (Returns (Err ctx), m))"
  by (simp add: WaitForReady_def Join_def)

theorem cancelled_wait_witness:
  "WaitForReady (the_mfs (start ''/mnt'' []))
     \<lparr>Done = Closed, Err = Some (ErrorString ''context canceled'')\<rparr> True =
     (Returns (Some (ErrorString ''context canceled'')), the_mfs (start ''/mnt'' [])) \<and>
   Join (the_mfs (start ''/mnt'' []))
     \<lparr>Done = Closed, Err = Some (ErrorString ''context canceled'')\<rparr> True =
     (Returns (Some (ErrorString ''context canceled'')), the_mfs (start ''/mnt'' []))"
  using cancelled_wait_returns_ctx_err
    [of "\<lparr>Done = Closed, Err = Some (ErrorString ''context canceled'')\<rparr>"
       "the_mfs (start ''/mnt'' [])" True]
  by (simp add: start_def)

section \<open>A failed mount\<close>

lemma mounted_exec:
  "mounted d opts s \<Longrightarrow> exec bm as s = Some s' \<Longrightarrow> mounted d opts s'"
proof (induction as arbitrary: s)
  case Nil
  then show ?case by simp
next
  case (Cons a as)
  from Cons.prems(2) obtain s1 where s1: "step bm a s = Some s1" "exec bm as s1 = Some s'"
    by (auto split: option.splits)
  from Cons.prems(1) s1(1) have "mounted d opts s1" by (rule mounted_step)
  then show ?case using s1(2) by (rule Cons.IH)
qed

lemma WaitForReady_not_cancelled:
  "Done ctx = Open \<Longrightarrow>
   WaitForReady m ctx pick =
     (case readyStatusAvailable m of
        Closed \<Rightarrow> (Returns (readyStatus m), m)
      | Open \<Rightarrow> (Blocks, m))"
  by (cases "readyStatusAvailable m") (simp_all add: WaitForReady_def)

lemma Join_not_cancelled:
  "Done ctx = Open \<Longrightarrow>
   Join m ctx pick =
     (case joinStatusAvailable m of
        Closed \<Rightarrow> (Returns (joinStatus m), m)
      | Open \<Rightarrow> (Blocks, m))"
  by (cases "joinStatusAvailable m") (simp_all add: Join_def)

lemma failed_state:
  assumes "bm d opts = Inl E" and "invariant bm d opts s"
  shows "set (history s) \<subseteq>
           {CallMount, WriteReadyStatus (Some (mount_failure E)), CloseReadyStatusAvailable} \<and>
         joinStatus (the_mfs s) = None \<and> joinStatusAvailable (the_mfs s) = Open \<and>
         (readyStatusAvailable (the_mfs s) = Closed \<longrightarrow>
            readyStatus (the_mfs s) = Some (mount_failure E)) \<and>
         (main_pc s = Returned \<longrightarrow> readyStatusAvailable (the_mfs s) = Closed)"
proof (cases "s = start d opts")
  case True
  then show ?thesis by (simp add: start_def)
next
  case False
  with assms have f: "mount_failed d opts E s" by (simp add: invariant_def)
  from f have "joinStatus (the_mfs s) = None \<and> joinStatusAvailable (the_mfs s) = Open"
    by (simp add: mount_failed_def)
  moreover from f have "(readyStatusAvailable (the_mfs s) = Closed \<longrightarrow>
            readyStatus (the_mfs s) = Some (mount_failure E)) \<and>
         (main_pc s = Returned \<longrightarrow> readyStatusAvailable (the_mfs s) = Closed)"
    unfolding mount_failed_def by (cases "main_pc s") auto
  ultimately show ?thesis using mount_failed_no_serve [OF f] by simp
qed

text \<open>
  C1, as the code has it. When the driver's \<^verbatim>\<open>Mount\<close> fails with \<open>E\<close>: in every state the program can reach,
  \<^verbatim>\<open>Serve\<close> has not been called, \<^verbatim>\<open>joinStatusAvailable\<close> has not been closed and is open,
  \<^verbatim>\<open>joinStatus\<close> has not been written and is nil; a \<^verbatim>\<open>WaitForReady\<close> that is not
  cancelled blocks or returns the error \<^verbatim>\<open>"bazilfuse.Mount: " + E.Error()\<close>; and
  \<^verbatim>\<open>mountAndServe\<close> runs on to its return, where \<^verbatim>\<open>readyStatusAvailable\<close> is closed,
  \<^verbatim>\<open>readyStatus\<close> is that error and such a call returns it.
\<close>

theorem mount_failure_reported:
  assumes "bm d opts = Inl E" and "exec bm as (start d opts) = Some s"
  shows "CallServe \<notin> set (history s) \<and>
         CloseJoinStatusAvailable \<notin> set (history s) \<and>
         (\<forall>v. WriteJoinStatus v \<notin> set (history s)) \<and>
         joinStatus (the_mfs s) = None \<and> joinStatusAvailable (the_mfs s) = Open \<and>
         (\<forall>ctx pick. Done ctx = Open \<longrightarrow>
            WaitForReady (the_mfs s) ctx pick = (Blocks, the_mfs s) \<or>
            WaitForReady (the_mfs s) ctx pick =
              (Returns (Some (errors_New (''bazilfuse.Mount: '' @ Error E))), the_mfs s)) \<and>
         (\<exists>n s'. exec bm (replicate n Step_mountAndServe) s = Some s' \<and>
            main_pc s' = Returned \<and>
            readyStatusAvailable (the_mfs s') = Closed \<and>
            readyStatus (the_mfs s') = Some (errors_New (''bazilfuse.Mount: '' @ Error E)) \<and>
            (\<forall>ctx pick. Done ctx = Open \<longrightarrow>
               WaitForReady (the_mfs s') ctx pick =
                 (Returns (Some (errors_New (''bazilfuse.Mount: '' @ Error E))), the_mfs s')))"
proof -
  from assms(2) have inv: "invariant bm d opts s" by (rule reachable_invariant)
  note st = failed_state [OF assms(1) inv]
  from st have hist: "CallServe \<notin> set (history s) \<and>
         CloseJoinStatusAvailable \<notin> set (history s) \<and>
         (\<forall>v. WriteJoinStatus v \<notin> set (history s))"
    by auto
  have wait: "WaitForReady (the_mfs s) ctx pick = (Blocks, the_mfs s) \<or>
            WaitForReady (the_mfs s) ctx pick =
              (Returns (Some (errors_New (''bazilfuse.Mount: '' @ Error E))), the_mfs s)"
    if "Done ctx = Open" for ctx pick
    using st that
    by (cases "readyStatusAvailable (the_mfs s)")
       (simp_all add: WaitForReady_not_cancelled mount_failure_def)
  from failed_finishes [OF assms(1) inv] obtain n s' where
    run: "exec bm (replicate n Step_mountAndServe) s = Some s'" and ret: "main_pc s' = Returned"
    by blast
  from inv run have "invariant bm d opts s'" by (rule invariant_exec)
  note st' = failed_state [OF assms(1) this]
  have wait': "WaitForReady (the_mfs s') ctx pick =
                 (Returns (Some (errors_New (''bazilfuse.Mount: '' @ Error E))), the_mfs s')"
    if "Done ctx = Open" for ctx pick
    using st' ret that by (simp add: WaitForReady_not_cancelled mount_failure_def)
  from st' ret have stored: "readyStatusAvailable (the_mfs s') = Closed \<and>
            readyStatus (the_mfs s') = Some (errors_New (''bazilfuse.Mount: '' @ Error E))"
    by (simp add: mount_failure_def)
  from run ret stored wait'
  have "\<exists>n s'. exec bm (replicate n Step_mountAndServe) s = Some s' \<and>
            main_pc s' = Returned \<and>
            readyStatusAvailable (the_mfs s') = Closed \<and>
            readyStatus (the_mfs s') = Some (errors_New (''bazilfuse.Mount: '' @ Error E)) \<and>
            (\<forall>ctx pick. Done ctx = Open \<longrightarrow>
               WaitForReady (the_mfs s') ctx pick =
                 (Returns (Some (errors_New (''bazilfuse.Mount: '' @ Error E))), the_mfs s'))"
    by blast
  with hist st wait show ?thesis by blast
qed

theorem mount_failure_witness:
  "failing_driver ''/mnt'' [] = Inl (ErrorString ''exit status 1'') \<and>
   (\<exists>s. exec failing_driver [Step_mountAndServe, Step_mountAndServe] (start ''/mnt'' []) = Some s \<and>
      CallServe \<notin> set (history s) \<and>
      CloseJoinStatusAvailable \<notin> set (history s) \<and>
      joinStatus (the_mfs s) = None \<and> joinStatusAvailable (the_mfs s) = Open \<and>
      (\<exists>n s'. exec failing_driver (replicate n Step_mountAndServe) s = Some s' \<and>
         main_pc s' = Returned \<and>
         WaitForReady (the_mfs s') \<lparr>Done = Open, Err = None\<rparr> True =
           (Returns (Some (ErrorString ''bazilfuse.Mount: exit status 1'')), the_mfs s')))"
proof -
  have d: "failing_driver ''/mnt'' [] = Inl (ErrorString ''exit status 1'')"
    by (simp add: failing_driver_def)
  have "\<exists>s. exec failing_driver [Step_mountAndServe, Step_mountAndServe] (start ''/mnt'' []) = Some s"
    by (simp add: step_defs start_def failing_driver_def)
  then obtain s where
    s: "exec failing_driver [Step_mountAndServe, Step_mountAndServe] (start ''/mnt'' []) = Some s" ..
  note t = mount_failure_reported [OF d s]
  from t obtain n s' where
    run: "exec failing_driver (replicate n Step_mountAndServe) s = Some s'"
      "main_pc s' = Returned" and
    w: "\<forall>ctx pick. Done ctx = Open \<longrightarrow>
          WaitForReady (the_mfs s') ctx pick =
            (Returns (Some (errors_New (''bazilfuse.Mount: '' @ Error (ErrorString ''exit status 1'')))),
             the_mfs s')"
    by blast
  from w have "WaitForReady (the_mfs s') \<lparr>Done = Open, Err = None\<rparr> True =
           (Returns (Some (ErrorString ''bazilfuse.Mount: exit status 1'')), the_mfs s')"
    by (simp add: errors_New_def)
  with run t d s show ?thesis by blast
qed

text \<open>
  C1 as stated fails for a call that is cancelled: after the driver's \<^verbatim>\<open>Mount\<close> failed
  with \<open>exit status 1\<close> and \<^verbatim>\<open>mountAndServe\<close> returned, a \<^verbatim>\<open>WaitForReady\<close> whose context
  is done, and whose \<^verbatim>\<open>select\<close> takes the second case, returns \<^verbatim>\<open>ctx.Err()\<close>, which does
  not wrap the driver's error.
\<close>

theorem cancelled_wait_after_failed_mount:
  "failing_driver ''/mnt'' [] = Inl (ErrorString ''exit status 1'') \<and>
   map_option the_mfs
     (exec failing_driver
        [Step_mountAndServe, Step_mountAndServe, Step_mountAndServe]
        (start ''/mnt'' [])) =
     Some \<lparr>dir = ''/mnt'',
            readyStatus = Some (ErrorString ''bazilfuse.Mount: exit status 1''),
            readyStatusAvailable = Closed,
            joinStatus = None, joinStatusAvailable = Open\<rparr> \<and>
   WaitForReady
     \<lparr>dir = ''/mnt'',
        readyStatus = Some (ErrorString ''bazilfuse.Mount: exit status 1''),
        readyStatusAvailable = Closed,
        joinStatus = None, joinStatusAvailable = Open\<rparr>
     \<lparr>Done = Closed, Err = Some (ErrorString ''context canceled'')\<rparr> False =
     (Returns (Some (ErrorString ''context canceled'')),
      \<lparr>dir = ''/mnt'',
         readyStatus = Some (ErrorString ''bazilfuse.Mount: exit status 1''),
         readyStatusAvailable = Closed,
         joinStatus = None, joinStatusAvailable = Open\<rparr>) \<and>
   \<not> wraps (ErrorString ''context canceled'') (ErrorString ''exit status 1'')"
  by (simp add: step_defs start_def failing_driver_def errors_New_def WaitForReady_def
        wraps_def)

section \<open>Outcome fields and their channels\<close>

text \<open>
  C2. In every state the program can reach: each outcome field has been written at
  most once; no write to a field comes after the close of its channel; each channel has
  been closed at most once, and no close has panicked; a channel is closed exactly if its
  close is in the history; and once a channel is closed, its field and the channel keep
  their values in every state reached later.
\<close>

theorem outcome_written_once_before_close:
  assumes "exec bm as (start d opts) = Some s"
  shows "length (filter writes_readyStatus (history s)) \<le> 1 \<and>
         length (filter writes_joinStatus (history s)) \<le> 1 \<and>
         filter writes_readyStatus (after_first CloseReadyStatusAvailable (history s)) = [] \<and>
         filter writes_joinStatus (after_first CloseJoinStatusAvailable (history s)) = [] \<and>
         count_list (history s) CloseReadyStatusAvailable \<le> 1 \<and>
         count_list (history s) CloseJoinStatusAvailable \<le> 1 \<and>
         \<not> crashed s \<and> \<not> panicking s \<and>
         (CloseReadyStatusAvailable \<in> set (history s) \<longleftrightarrow>
            readyStatusAvailable (the_mfs s) = Closed) \<and>
         (CloseJoinStatusAvailable \<in> set (history s) \<longleftrightarrow>
            joinStatusAvailable (the_mfs s) = Closed) \<and>
         (\<forall>bs s'. exec bm bs s = Some s' \<and> readyStatusAvailable (the_mfs s) = Closed \<longrightarrow>
            readyStatusAvailable (the_mfs s') = Closed \<and>
            readyStatus (the_mfs s') = readyStatus (the_mfs s)) \<and>
         (\<forall>bs s'. exec bm bs s = Some s' \<and> joinStatusAvailable (the_mfs s) = Closed \<longrightarrow>
            joinStatusAvailable (the_mfs s') = Closed \<and>
            joinStatus (the_mfs s') = joinStatus (the_mfs s))"
proof -
  from assms have inv: "invariant bm d opts s" by (rule reachable_invariant)
  have r: "\<forall>bs s'. exec bm bs s = Some s' \<and> readyStatusAvailable (the_mfs s) = Closed \<longrightarrow>
            readyStatusAvailable (the_mfs s') = Closed \<and>
            readyStatus (the_mfs s') = readyStatus (the_mfs s)"
    using ready_frozen_exec [OF inv] by blast
  have j: "\<forall>bs s'. exec bm bs s = Some s' \<and> joinStatusAvailable (the_mfs s) = Closed \<longrightarrow>
            joinStatusAvailable (the_mfs s') = Closed \<and>
            joinStatus (the_mfs s') = joinStatus (the_mfs s)"
    using join_frozen_exec [OF inv] by blast
  from ready_once [OF inv] join_once [OF inv] never_panics [OF inv] r j
  show ?thesis by blast
qed

theorem outcome_written_once_witness:
  "\<exists>s. exec working_driver
          [Step_mountAndServe, Step_mountAndServe, Step_mountAndServe,
           Conn_becomes_ready None, Step_readiness, Step_readiness, Step_readiness,
           Serve_returns (Some (ErrorString ''EIO'')), Step_mountAndServe, Step_mountAndServe]
          (start ''/mnt'' []) = Some s \<and>
        history s =
          [CallMount, CallServe, WriteReadyStatus None, CloseReadyStatusAvailable,
           ServeReturned (Some (ErrorString ''EIO'')),
           WriteJoinStatus (Some (ErrorString ''Serve: EIO'')), CloseJoinStatusAvailable] \<and>
        length (filter writes_readyStatus (history s)) \<le> 1 \<and>
        length (filter writes_joinStatus (history s)) \<le> 1 \<and>
        filter writes_readyStatus (after_first CloseReadyStatusAvailable (history s)) = [] \<and>
        filter writes_joinStatus (after_first CloseJoinStatusAvailable (history s)) = [] \<and>
        count_list (history s) CloseReadyStatusAvailable \<le> 1 \<and>
        count_list (history s) CloseJoinStatusAvailable \<le> 1 \<and>
        readyStatusAvailable (the_mfs s) = Closed \<and> joinStatusAvailable (the_mfs s) = Closed \<and>
        (\<exists>s'. exec working_driver [Step_mountAndServe] s = Some s' \<and>
           readyStatus (the_mfs s') = readyStatus (the_mfs s) \<and>
           joinStatus (the_mfs s') = joinStatus (the_mfs s))"
proof -
  let ?sched = "[Step_mountAndServe, Step_mountAndServe, Step_mountAndServe,
           Conn_becomes_ready None, Step_readiness, Step_readiness, Step_readiness,
           Serve_returns (Some (ErrorString ''EIO'')), Step_mountAndServe, Step_mountAndServe]"
  have "\<exists>s. exec working_driver ?sched (start ''/mnt'' []) = Some s \<and>
          history s =
            [CallMount, CallServe, WriteReadyStatus None, CloseReadyStatusAvailable,
             ServeReturned (Some (ErrorString ''EIO'')),
             WriteJoinStatus (Some (ErrorString ''Serve: EIO'')), CloseJoinStatusAvailable] \<and>
          (\<exists>s'. exec working_driver [Step_mountAndServe] s = Some s')"
    by (simp add: step_defs start_def working_driver_def errors_New_def)
  then obtain s s' where
    s: "exec working_driver ?sched (start ''/mnt'' []) = Some s" and
    h: "history s =
            [CallMount, CallServe, WriteReadyStatus None, CloseReadyStatusAvailable,
             ServeReturned (Some (ErrorString ''EIO'')),
             WriteJoinStatus (Some (ErrorString ''Serve: EIO'')), CloseJoinStatusAvailable]" and
    s': "exec working_driver [Step_mountAndServe] s = Some s'"
    by blast
  note t = outcome_written_once_before_close [OF s]
  from t h have c: "readyStatusAvailable (the_mfs s) = Closed \<and>
                    joinStatusAvailable (the_mfs s) = Closed"
    by simp
  with t s' have "readyStatus (the_mfs s') = readyStatus (the_mfs s) \<and>
           joinStatus (the_mfs s') = joinStatus (the_mfs s)"
    by blast
  with t s h c s' show ?thesis by blast
qed

text \<open>
  C5. Once \<^verbatim>\<open>readyStatusAvailable\<close> is closed, a \<^verbatim>\<open>WaitForReady\<close> that is not cancelled
  returns \<^verbatim>\<open>readyStatus\<close> as it was when the channel was closed, in that state and in
  every state the program reaches later, whatever the context and the choice of the
  \<^verbatim>\<open>select\<close>, and the struct is as it was before the call. The same holds of \<^verbatim>\<open>Join\<close>,
  \<^verbatim>\<open>joinStatusAvailable\<close> and \<^verbatim>\<open>joinStatus\<close>.
\<close>

theorem waits_return_cached_outcome:
  assumes "exec bm as (start d opts) = Some s" and "exec bm bs s = Some s'"
    and "Done ctx = Open" and "Done ctx' = Open"
  shows "(readyStatusAvailable (the_mfs s) = Closed \<longrightarrow>
            WaitForReady (the_mfs s) ctx pick = (Returns (readyStatus (the_mfs s)), the_mfs s) \<and>
            WaitForReady (the_mfs s') ctx' pick' =
              (Returns (readyStatus (the_mfs s)), the_mfs s')) \<and>
         (joinStatusAvailable (the_mfs s) = Closed \<longrightarrow>
            Join (the_mfs s) ctx pick = (Returns (joinStatus (the_mfs s)), the_mfs s) \<and>
            Join (the_mfs s') ctx' pick' = (Returns (joinStatus (the_mfs s)), the_mfs s'))"
proof -
  from assms(1) have inv: "invariant bm d opts s" by (rule reachable_invariant)
  have "WaitForReady (the_mfs s) ctx pick = (Returns (readyStatus (the_mfs s)), the_mfs s) \<and>
        WaitForReady (the_mfs s') ctx' pick' = (Returns (readyStatus (the_mfs s)), the_mfs s')"
    if c: "readyStatusAvailable (the_mfs s) = Closed"
    using ready_frozen_exec [OF inv c assms(2)] c assms(3,4)
    by (simp add: WaitForReady_not_cancelled)
  moreover
  have "Join (the_mfs s) ctx pick = (Returns (joinStatus (the_mfs s)), the_mfs s) \<and>
        Join (the_mfs s') ctx' pick' = (Returns (joinStatus (the_mfs s)), the_mfs s')"
    if c: "joinStatusAvailable (the_mfs s) = Closed"
    using join_frozen_exec [OF inv c assms(2)] c assms(3,4)
    by (simp add: Join_not_cancelled)
  ultimately show ?thesis by blast
qed

theorem waits_return_cached_witness:
  "\<exists>s s'. exec working_driver
          [Step_mountAndServe, Step_mountAndServe, Step_mountAndServe,
           Conn_becomes_ready None, Step_readiness, Step_readiness, Step_readiness,
           Serve_returns (Some (ErrorString ''EIO'')), Step_mountAndServe, Step_mountAndServe]
          (start ''/mnt'' []) = Some s \<and>
        exec working_driver [Step_mountAndServe] s = Some s' \<and>
        readyStatusAvailable (the_mfs s) = Closed \<and>
        joinStatusAvailable (the_mfs s) = Closed \<and>
        WaitForReady (the_mfs s) \<lparr>Done = Open, Err = None\<rparr> True = (Returns None, the_mfs s) \<and>
        WaitForReady (the_mfs s') \<lparr>Done = Open, Err = None\<rparr> False = (Returns None, the_mfs s') \<and>
        Join (the_mfs s) \<lparr>Done = Open, Err = None\<rparr> True =
          (Returns (Some (ErrorString ''Serve: EIO'')), the_mfs s) \<and>
        Join (the_mfs s') \<lparr>Done = Open, Err = None\<rparr> False =
          (Returns (Some (ErrorString ''Serve: EIO'')), the_mfs s')"
proof -
  let ?sched = "[Step_mountAndServe, Step_mountAndServe, Step_mountAndServe,
           Conn_becomes_ready None, Step_readiness, Step_readiness, Step_readiness,
           Serve_returns (Some (ErrorString ''EIO'')), Step_mountAndServe, Step_mountAndServe]"
  have "\<exists>s. exec working_driver ?sched (start ''/mnt'' []) = Some s \<and>
          readyStatusAvailable (the_mfs s) = Closed \<and> joinStatusAvailable (the_mfs s) = Closed \<and>
          readyStatus (the_mfs s) = None \<and>
          joinStatus (the_mfs s) = Some (ErrorString ''Serve: EIO'') \<and>
          (\<exists>s'. exec working_driver [Step_mountAndServe] s = Some s')"
    by (simp add: step_defs start_def working_driver_def errors_New_def)
  then obtain s s' where
    s: "exec working_driver ?sched (start ''/mnt'' []) = Some s" and
    c: "readyStatusAvailable (the_mfs s) = Closed" "joinStatusAvailable (the_mfs s) = Closed" and
    v: "readyStatus (the_mfs s) = None"
       "joinStatus (the_mfs s) = Some (ErrorString ''Serve: EIO'')" and
    s': "exec working_driver [Step_mountAndServe] s = Some s'"
    by blast
  have o: "Done \<lparr>Done = Open, Err = None\<rparr> = Open" by simp
  from waits_return_cached_outcome [OF s s' o o, of True False] c v s s'
  show ?thesis by auto
qed

section \<open>After a successful mount\<close>

lemma mounted_or_start:
  "bm d opts = Inr cn \<Longrightarrow> exec bm as (start d opts) = Some s \<Longrightarrow>
   s = start d opts \<or> mounted d opts s"
  using reachable_invariant [of bm as d opts s] by (auto simp: invariant_def)

lemma join_outcome_eq:
  "map_option serve_failure r =
     (case r of None \<Rightarrow> None | Some F \<Rightarrow> Some (errors_New (''Serve: '' @ Error F)))"
  by (cases r) (simp_all add: serve_failure_def)

lemma join_events_eq:
  "expected_join_events r =
     (case r of
        None \<Rightarrow> [CloseJoinStatusAvailable]
      | Some F \<Rightarrow>
          [WriteJoinStatus (Some (errors_New (''Serve: '' @ Error F))), CloseJoinStatusAvailable])"
  by (cases r) (simp_all add: serve_failure_def)

lemma closed_join_facts:
  assumes "mounted d opts t" and "ServeReturned r \<in> set (history t)"
    and "joinStatusAvailable (the_mfs t) = Closed"
  shows "joinStatus (the_mfs t) = map_option serve_failure r \<and>
         filter on_join (history t) = expected_join_events r \<and>
         count_list (history t) CloseJoinStatusAvailable = 1"
proof -
  from mounted_serve_returned [OF assms(1,2)] have r: "serve_err t = r" by simp
  from assms(1) have "join_ok (main_pc t) (serve_err t) (joinStatus (the_mfs t))
       (joinStatusAvailable (the_mfs t)) (filter on_join (history t))"
    by (simp add: mounted_def)
  with assms(3) r have 1: "joinStatus (the_mfs t) = map_option serve_failure r \<and>
         filter on_join (history t) = expected_join_events r"
    by (cases "main_pc t") auto
  have "count_list (history t) CloseJoinStatusAvailable =
        count_list (filter on_join (history t)) CloseJoinStatusAvailable"
    by (simp add: count_list_filter)
  also have "\<dots> = 1" using 1 by (cases r) simp_all
  finally show ?thesis using 1 by simp
qed

lemma returned_join_closed:
  "mounted d opts t \<Longrightarrow> main_pc t = Returned \<Longrightarrow> joinStatusAvailable (the_mfs t) = Closed"
  by (simp add: mounted_def)

text \<open>
  C3, as the code has it. After a successful mount, in every state reached by a schedule in which
  \<^verbatim>\<open>Serve\<close> has returned \<open>r\<close>: if \<^verbatim>\<open>joinStatusAvailable\<close> is closed then \<^verbatim>\<open>joinStatus\<close> is
  nil when \<open>r\<close> is nil and the error \<^verbatim>\<open>"Serve: " + F.Error()\<close> when \<open>r\<close> is the error \<open>F\<close>,
  the channel was closed exactly once, after the write if there was one, and a \<^verbatim>\<open>Join\<close>
  that is not cancelled returns that value; and \<^verbatim>\<open>mountAndServe\<close> runs on to its return,
  where the channel is closed and \<^verbatim>\<open>Join\<close> returns that value.
\<close>

theorem serve_outcome_reported:
  assumes "bm d opts = Inr cn" and "exec bm as (start d opts) = Some s"
    and "Serve_returns r \<in> set as"
  shows "(joinStatusAvailable (the_mfs s) = Closed \<longrightarrow>
            joinStatus (the_mfs s) =
              (case r of None \<Rightarrow> None | Some F \<Rightarrow> Some (errors_New (''Serve: '' @ Error F))) \<and>
            filter on_join (history s) =
              (case r of
                 None \<Rightarrow> [CloseJoinStatusAvailable]
               | Some F \<Rightarrow>
                   [WriteJoinStatus (Some (errors_New (''Serve: '' @ Error F))),
                    CloseJoinStatusAvailable]) \<and>
            count_list (history s) CloseJoinStatusAvailable = 1 \<and>
            (\<forall>ctx pick. Done ctx = Open \<longrightarrow>
               Join (the_mfs s) ctx pick =
                 (Returns (case r of None \<Rightarrow> None
                           | Some F \<Rightarrow> Some (errors_New (''Serve: '' @ Error F))),
                  the_mfs s))) \<and>
         (\<exists>n s'. exec bm (replicate n Step_mountAndServe) s = Some s' \<and>
            main_pc s' = Returned \<and>
            joinStatusAvailable (the_mfs s') = Closed \<and>
            joinStatus (the_mfs s') =
              (case r of None \<Rightarrow> None | Some F \<Rightarrow> Some (errors_New (''Serve: '' @ Error F))) \<and>
            count_list (history s') CloseJoinStatusAvailable = 1 \<and>
            (\<forall>ctx pick. Done ctx = Open \<longrightarrow>
               Join (the_mfs s') ctx pick =
                 (Returns (case r of None \<Rightarrow> None
                           | Some F \<Rightarrow> Some (errors_New (''Serve: '' @ Error F))),
                  the_mfs s')))"
proof -
  from assms(2,3) have ret: "ServeReturned r \<in> set (history s)"
    by (rule schedule_serve_returned)
  then have "s \<noteq> start d opts" by (auto simp: start_def)
  with mounted_or_start [OF assms(1,2)] have m: "mounted d opts s" by simp
  have closed: "joinStatus (the_mfs t) =
              (case r of None \<Rightarrow> None | Some F \<Rightarrow> Some (errors_New (''Serve: '' @ Error F))) \<and>
            filter on_join (history t) =
              (case r of
                 None \<Rightarrow> [CloseJoinStatusAvailable]
               | Some F \<Rightarrow>
                   [WriteJoinStatus (Some (errors_New (''Serve: '' @ Error F))),
                    CloseJoinStatusAvailable]) \<and>
            count_list (history t) CloseJoinStatusAvailable = 1 \<and>
            (\<forall>ctx pick. Done ctx = Open \<longrightarrow>
               Join (the_mfs t) ctx pick =
                 (Returns (case r of None \<Rightarrow> None
                           | Some F \<Rightarrow> Some (errors_New (''Serve: '' @ Error F))),
                  the_mfs t))"
    if t: "mounted d opts t" "ServeReturned r \<in> set (history t)"
      "joinStatusAvailable (the_mfs t) = Closed" for t
    using closed_join_facts [OF t] t(3)
    by (simp add: Join_not_cancelled join_outcome_eq join_events_eq)
  from mounted_serve_returned [OF m ret] main_finishes [OF m] obtain n s' where
    run: "exec bm (replicate n Step_mountAndServe) s = Some s'" and fin: "main_pc s' = Returned"
    by blast
  from m run have m': "mounted d opts s'" by (rule mounted_exec)
  from exec_history [OF run] ret have ret': "ServeReturned r \<in> set (history s')" by auto
  from m' fin have c': "joinStatusAvailable (the_mfs s') = Closed"
    by (rule returned_join_closed)
  from closed [OF m' ret' c'] run fin c'
  have "\<exists>n s'. exec bm (replicate n Step_mountAndServe) s = Some s' \<and>
            main_pc s' = Returned \<and>
            joinStatusAvailable (the_mfs s') = Closed \<and>
            joinStatus (the_mfs s') =
              (case r of None \<Rightarrow> None | Some F \<Rightarrow> Some (errors_New (''Serve: '' @ Error F))) \<and>
            count_list (history s') CloseJoinStatusAvailable = 1 \<and>
            (\<forall>ctx pick. Done ctx = Open \<longrightarrow>
               Join (the_mfs s') ctx pick =
                 (Returns (case r of None \<Rightarrow> None
                           | Some F \<Rightarrow> Some (errors_New (''Serve: '' @ Error F))),
                  the_mfs s'))"
    by blast
  with closed [OF m ret] show ?thesis by blast
qed

theorem serve_outcome_witness:
  "working_driver ''/mnt'' [] = Inr \<lparr>Ready = Open, MountError = None\<rparr> \<and>
   (\<exists>s. exec working_driver
           [Step_mountAndServe, Step_mountAndServe, Step_mountAndServe,
            Serve_returns (Some (ErrorString ''EIO''))]
           (start ''/mnt'' []) = Some s \<and>
      (\<exists>n s'. exec working_driver (replicate n Step_mountAndServe) s = Some s' \<and>
         main_pc s' = Returned \<and>
         joinStatusAvailable (the_mfs s') = Closed \<and>
         count_list (history s') CloseJoinStatusAvailable = 1 \<and>
         Join (the_mfs s') \<lparr>Done = Open, Err = None\<rparr> True =
           (Returns (Some (ErrorString ''Serve: EIO'')), the_mfs s')))"
proof -
  let ?sched = "[Step_mountAndServe, Step_mountAndServe, Step_mountAndServe,
            Serve_returns (Some (ErrorString ''EIO''))]"
  have d: "working_driver ''/mnt'' [] = Inr \<lparr>Ready = Open, MountError = None\<rparr>"
    by (simp add: working_driver_def)
  have "\<exists>s. exec working_driver ?sched (start ''/mnt'' []) = Some s"
    by (simp add: step_defs start_def working_driver_def)
  then obtain s where s: "exec working_driver ?sched (start ''/mnt'' []) = Some s" ..
  have r: "Serve_returns (Some (ErrorString ''EIO'')) \<in> set ?sched" by simp
  from serve_outcome_reported [OF d s r] obtain n s' where
    run: "exec working_driver (replicate n Step_mountAndServe) s = Some s'"
      "main_pc s' = Returned" "joinStatusAvailable (the_mfs s') = Closed"
      "count_list (history s') CloseJoinStatusAvailable = 1" and
    j: "\<forall>ctx pick. Done ctx = Open \<longrightarrow>
          Join (the_mfs s') ctx pick =
            (Returns (case Some (ErrorString ''EIO'') of None \<Rightarrow> None
                      | Some F \<Rightarrow> Some (errors_New (''Serve: '' @ Error F))),
             the_mfs s')"
    by blast
  from j have "Join (the_mfs s') \<lparr>Done = Open, Err = None\<rparr> True =
           (Returns (Some (ErrorString ''Serve: EIO'')), the_mfs s')"
    by (simp add: errors_New_def)
  with run d s show ?thesis by blast
qed

text \<open>
  C3 as stated fails for a call that is cancelled: after a successful mount,
  \<^verbatim>\<open>Serve\<close> returned \<open>EIO\<close> and \<^verbatim>\<open>mountAndServe\<close> returned, a \<^verbatim>\<open>Join\<close> whose context is
  done, and whose \<^verbatim>\<open>select\<close> takes the second case, returns \<^verbatim>\<open>ctx.Err()\<close>, which does
  not wrap the error of \<^verbatim>\<open>Serve\<close>.
\<close>

theorem cancelled_join_after_serve_error:
  "working_driver ''/mnt'' [] = Inr \<lparr>Ready = Open, MountError = None\<rparr> \<and>
   map_option the_mfs
     (exec working_driver
        [Step_mountAndServe, Step_mountAndServe, Step_mountAndServe,
         Serve_returns (Some (ErrorString ''EIO'')),
         Step_mountAndServe, Step_mountAndServe, Step_mountAndServe]
        (start ''/mnt'' [])) =
     Some \<lparr>dir = ''/mnt'', readyStatus = None, readyStatusAvailable = Open,
            joinStatus = Some (ErrorString ''Serve: EIO''),
            joinStatusAvailable = Closed\<rparr> \<and>
   Join
     \<lparr>dir = ''/mnt'', readyStatus = None, readyStatusAvailable = Open,
        joinStatus = Some (ErrorString ''Serve: EIO''),
        joinStatusAvailable = Closed\<rparr>
     \<lparr>Done = Closed, Err = Some (ErrorString ''context canceled'')\<rparr> False =
     (Returns (Some (ErrorString ''context canceled'')),
      \<lparr>dir = ''/mnt'', readyStatus = None, readyStatusAvailable = Open,
         joinStatus = Some (ErrorString ''Serve: EIO''),
         joinStatusAvailable = Closed\<rparr>) \<and>
   \<not> wraps (ErrorString ''context canceled'') (ErrorString ''EIO'')"
  by (simp add: step_defs start_def working_driver_def errors_New_def Join_def wraps_def)

lemma close_count:
  assumes "mounted d opts t"
  shows "count_list (history t) CallClose = (if main_pc t = Returned then 1 else 0) \<and>
         (main_pc t = Returned \<longrightarrow> joinStatusAvailable (the_mfs t) = Closed)"
proof -
  have "count_list (history t) CallClose =
        count_list (filter on_collaborators (history t)) CallClose"
    by (simp add: count_list_filter)
  also have "\<dots> = count_list (expected_calls (main_pc t) (serve_err t)) CallClose"
    using assms by (simp add: mounted_def)
  also have "\<dots> = (if main_pc t = Returned then 1 else 0)"
    by (cases "main_pc t") simp_all
  finally show ?thesis using returned_join_closed [OF assms] by simp
qed

text \<open>
  C6. After a successful mount, \<^verbatim>\<open>c.Close()\<close> has been called at most once in every
  state the program can reach, exactly once where \<^verbatim>\<open>mountAndServe\<close> has returned, and
  not before \<^verbatim>\<open>joinStatusAvailable\<close> was closed; and once \<^verbatim>\<open>Serve\<close> has returned, with
  an error or with nil, \<^verbatim>\<open>mountAndServe\<close> runs on to its return, where \<^verbatim>\<open>c.Close()\<close> has
  been called exactly once.
\<close>

theorem connection_closed_once:
  assumes "bm d opts = Inr cn" and "exec bm as (start d opts) = Some s"
  shows "count_list (history s) CallClose \<le> 1 \<and>
         (main_pc s = Returned \<longrightarrow> count_list (history s) CallClose = 1) \<and>
         (CallClose \<in> set (history s) \<longrightarrow>
            main_pc s = Returned \<and> joinStatusAvailable (the_mfs s) = Closed) \<and>
         (\<forall>r. Serve_returns r \<in> set as \<longrightarrow>
            (\<exists>n s'. exec bm (replicate n Step_mountAndServe) s = Some s' \<and>
               main_pc s' = Returned \<and> count_list (history s') CallClose = 1))"
proof -
  have safe: "count_list (history s) CallClose \<le> 1 \<and>
         (main_pc s = Returned \<longrightarrow> count_list (history s) CallClose = 1) \<and>
         (CallClose \<in> set (history s) \<longrightarrow>
            main_pc s = Returned \<and> joinStatusAvailable (the_mfs s) = Closed)"
  proof (cases "s = start d opts")
    case True
    then show ?thesis by (simp add: start_def)
  next
    case False
    with mounted_or_start [OF assms] have "mounted d opts s" by simp
    from close_count [OF this] show ?thesis
      using count_list_0_iff [of "history s" CallClose] by (auto split: if_splits)
  qed
  have live: "\<exists>n s'. exec bm (replicate n Step_mountAndServe) s = Some s' \<and>
               main_pc s' = Returned \<and> count_list (history s') CallClose = 1"
    if r: "Serve_returns r \<in> set as" for r
  proof -
    from assms(2) r have ret: "ServeReturned r \<in> set (history s)"
      by (rule schedule_serve_returned)
    then have "s \<noteq> start d opts" by (auto simp: start_def)
    with mounted_or_start [OF assms] have m: "mounted d opts s" by simp
    from mounted_serve_returned [OF m ret] main_finishes [OF m] obtain n s' where
      run: "exec bm (replicate n Step_mountAndServe) s = Some s'" and fin: "main_pc s' = Returned"
      by blast
    from m run have "mounted d opts s'" by (rule mounted_exec)
    from close_count [OF this] fin have "count_list (history s') CallClose = 1" by simp
    with run fin show ?thesis by blast
  qed
  from safe live show ?thesis by blast
qed

theorem connection_closed_witness:
  "working_driver ''/mnt'' [] = Inr \<lparr>Ready = Open, MountError = None\<rparr> \<and>
   (\<exists>s. exec working_driver
           [Step_mountAndServe, Step_mountAndServe, Step_mountAndServe,
            Serve_returns (Some (ErrorString ''EIO''))]
           (start ''/mnt'' []) = Some s \<and>
      count_list (history s) CallClose \<le> 1 \<and>
      (\<exists>n s'. exec working_driver (replicate n Step_mountAndServe) s = Some s' \<and>
         main_pc s' = Returned \<and> count_list (history s') CallClose = 1))"
proof -
  let ?sched = "[Step_mountAndServe, Step_mountAndServe, Step_mountAndServe,
            Serve_returns (Some (ErrorString ''EIO''))]"
  have d: "working_driver ''/mnt'' [] = Inr \<lparr>Ready = Open, MountError = None\<rparr>"
    by (simp add: working_driver_def)
  have "\<exists>s. exec working_driver ?sched (start ''/mnt'' []) = Some s"
    by (simp add: step_defs start_def working_driver_def)
  then obtain s where s: "exec working_driver ?sched (start ''/mnt'' []) = Some s" ..
  have r: "Serve_returns (Some (ErrorString ''EIO'')) \<in> set ?sched" by simp
  from connection_closed_once [OF d s] r d s show ?thesis by blast
qed

section \<open>The readiness goroutine\<close>

lemma conn_mounted:
  assumes "invariant bm d opts s" and "conn s = Some cn"
  shows "mounted d opts s"
proof -
  from assms(2) have "s \<noteq> start d opts" by (auto simp: start_def)
  with assms show ?thesis
    by (auto simp: invariant_def mount_failed_def split: sum.splits)
qed

lemma finished_ready_facts:
  assumes "mounted d opts t" and "conn t = Some cn"
    and "readyStatusAvailable (the_mfs t) = Closed \<or> ready_pc t = Finished"
  shows "Ready cn = Closed \<and> readyStatus (the_mfs t) = MountError cn \<and>
         readyStatusAvailable (the_mfs t) = Closed \<and>
         filter on_ready (history t) =
           [WriteReadyStatus (MountError cn), CloseReadyStatusAvailable]"
  using assms unfolding mounted_def by (cases "ready_pc t") auto

lemma start_readiness:
  assumes "mounted d opts s" and "ready_pc s = NotStarted"
  shows "\<exists>s1. step bm Step_mountAndServe s = Some s1 \<and> ready_pc s1 = L99_ReceiveReady"
  using assms by (auto simp: step_defs mounted_def)

lemma readiness_runs:
  assumes "invariant bm d opts s" and "conn s = Some cn" and "Ready cn = Closed"
  shows "\<exists>bs s'. set bs \<subseteq> {Step_mountAndServe, Step_readiness} \<and>
           exec bm bs s = Some s' \<and> ready_pc s' = Finished \<and>
           readyStatusAvailable (the_mfs s') = Closed \<and>
           readyStatus (the_mfs s') = MountError cn"
proof -
  from assms(1,2) have m: "mounted d opts s" by (rule conn_mounted)
  have started: "\<exists>n s'. exec bm (replicate n Step_readiness) t = Some s' \<and>
           ready_pc s' = Finished \<and>
           readyStatusAvailable (the_mfs s') = Closed \<and>
           readyStatus (the_mfs s') = MountError cn"
    if t: "invariant bm d opts t" "conn t = Some cn" "ready_pc t \<noteq> NotStarted" for t
  proof -
    from t(1,2) have mt: "mounted d opts t" by (rule conn_mounted)
    from readiness_finishes [OF mt t(3,2) assms(3)] obtain n s' where
      run: "exec bm (replicate n Step_readiness) t = Some s'" and fin: "ready_pc s' = Finished"
      by blast
    from mt run have m': "mounted d opts s'" by (rule mounted_exec)
    from conn_ready_stable_exec [OF t(1,2) assms(3) run] have c': "conn s' = Some cn" .
    from finished_ready_facts [OF m' c'] fin run show ?thesis by blast
  qed
  show ?thesis
  proof (cases "ready_pc s = NotStarted")
    case True
    from start_readiness [OF m True] obtain s1 where
      s1: "step bm Step_mountAndServe s = Some s1" "ready_pc s1 = L99_ReceiveReady" by blast
    from assms(1) s1(1) have inv1: "invariant bm d opts s1" by (rule invariant_step)
    from conn_ready_stable_step [OF assms s1(1)] have c1: "conn s1 = Some cn" .
    from s1(2) have "ready_pc s1 \<noteq> NotStarted" by simp
    from started [OF inv1 c1 this] obtain n s' where
      run: "exec bm (replicate n Step_readiness) s1 = Some s'" and
      fin: "ready_pc s' = Finished \<and> readyStatusAvailable (the_mfs s') = Closed \<and>
            readyStatus (the_mfs s') = MountError cn"
      by blast
    from s1(1) run have "exec bm (Step_mountAndServe # replicate n Step_readiness) s = Some s'"
      by simp
    moreover have "set (Step_mountAndServe # replicate n Step_readiness) \<subseteq>
                   {Step_mountAndServe, Step_readiness}"
      by auto
    ultimately show ?thesis using fin by blast
  next
    case False
    from started [OF assms(1,2) False] obtain n s' where
      run: "exec bm (replicate n Step_readiness) s = Some s'" and
      fin: "ready_pc s' = Finished \<and> readyStatusAvailable (the_mfs s') = Closed \<and>
            readyStatus (the_mfs s') = MountError cn"
      by blast
    moreover have "set (replicate n Step_readiness) \<subseteq> {Step_mountAndServe, Step_readiness}"
      by auto
    ultimately show ?thesis by blast
  qed
qed

text \<open>
  C4, as the code has it. After a successful mount, in every state the program can reach: if
  \<^verbatim>\<open>readyStatusAvailable\<close> is closed, the connection is ready, \<^verbatim>\<open>readyStatus\<close> is its
  \<^verbatim>\<open>MountError\<close>, and the only events on the field are that write and then the close. A
  connection that became ready carrying \<open>e\<close> has \<^verbatim>\<open>MountError\<close> \<open>e\<close> from then on. Once the
  connection is ready the goroutines alone run on to a state where the channel is closed
  and \<^verbatim>\<open>readyStatus\<close> is the connection's \<^verbatim>\<open>MountError\<close>. And if the channel is closed and
  the connection's \<^verbatim>\<open>MountError\<close> is nil, a \<^verbatim>\<open>WaitForReady\<close> that is not cancelled
  returns nil in every state reached later.
\<close>

theorem readiness_copies_mount_error:
  assumes "bm d opts = Inr cn0" and "exec bm as (start d opts) = Some s"
  shows "(\<forall>e. Conn_becomes_ready e \<in> set as \<longrightarrow>
            (\<exists>cn. conn s = Some cn \<and> Ready cn = Closed \<and> MountError cn = e)) \<and>
         (\<forall>cn. conn s = Some cn \<and> readyStatusAvailable (the_mfs s) = Closed \<longrightarrow>
            Ready cn = Closed \<and> readyStatus (the_mfs s) = MountError cn \<and>
            filter on_ready (history s) =
              [WriteReadyStatus (MountError cn), CloseReadyStatusAvailable]) \<and>
         (\<forall>cn. conn s = Some cn \<and> Ready cn = Closed \<longrightarrow>
            (\<exists>bs s'. set bs \<subseteq> {Step_mountAndServe, Step_readiness} \<and>
               exec bm bs s = Some s' \<and> ready_pc s' = Finished \<and>
               readyStatusAvailable (the_mfs s') = Closed \<and>
               readyStatus (the_mfs s') = MountError cn)) \<and>
         (\<forall>cn bs s' ctx pick.
            conn s = Some cn \<and> MountError cn = None \<and>
            readyStatusAvailable (the_mfs s) = Closed \<and>
            exec bm bs s = Some s' \<and> Done ctx = Open \<longrightarrow>
            WaitForReady (the_mfs s') ctx pick = (Returns None, the_mfs s'))"
proof -
  from assms(2) have inv: "invariant bm d opts s" by (rule reachable_invariant)
  have 1: "\<forall>e. Conn_becomes_ready e \<in> set as \<longrightarrow>
            (\<exists>cn. conn s = Some cn \<and> Ready cn = Closed \<and> MountError cn = e)"
    using schedule_conn_ready [OF assms(2)] by blast
  have 2: "Ready cn = Closed \<and> readyStatus (the_mfs s) = MountError cn \<and>
            filter on_ready (history s) =
              [WriteReadyStatus (MountError cn), CloseReadyStatusAvailable]"
    if "conn s = Some cn" "readyStatusAvailable (the_mfs s) = Closed" for cn
    using finished_ready_facts [OF conn_mounted [OF inv that(1)] that(1)] that(2) by simp
  have 3: "\<exists>bs s'. set bs \<subseteq> {Step_mountAndServe, Step_readiness} \<and>
               exec bm bs s = Some s' \<and> ready_pc s' = Finished \<and>
               readyStatusAvailable (the_mfs s') = Closed \<and>
               readyStatus (the_mfs s') = MountError cn"
    if "conn s = Some cn" "Ready cn = Closed" for cn
    using inv that by (rule readiness_runs)
  have 4: "WaitForReady (the_mfs s') ctx pick = (Returns None, the_mfs s')"
    if "conn s = Some cn" "MountError cn = None" "readyStatusAvailable (the_mfs s) = Closed"
      "exec bm bs s = Some s'" "Done ctx = Open" for cn bs s' ctx pick
    using 2 [OF that(1,3)] ready_frozen_exec [OF inv that(3,4)] that(2,5)
    by (simp add: WaitForReady_not_cancelled)
  from 1 2 3 4 show ?thesis by blast
qed

theorem readiness_copies_witness:
  "working_driver ''/mnt'' [] = Inr \<lparr>Ready = Open, MountError = None\<rparr> \<and>
   (\<exists>s. exec working_driver
           [Step_mountAndServe, Step_mountAndServe, Conn_becomes_ready None]
           (start ''/mnt'' []) = Some s \<and>
      conn s = Some \<lparr>Ready = Closed, MountError = None\<rparr> \<and>
      (\<exists>bs s'. set bs \<subseteq> {Step_mountAndServe, Step_readiness} \<and>
         exec working_driver bs s = Some s' \<and> ready_pc s' = Finished \<and>
         readyStatusAvailable (the_mfs s') = Closed \<and>
         readyStatus (the_mfs s') = None))"
proof -
  let ?sched = "[Step_mountAndServe, Step_mountAndServe, Conn_becomes_ready None]"
  have d: "working_driver ''/mnt'' [] = Inr \<lparr>Ready = Open, MountError = None\<rparr>"
    by (simp add: working_driver_def)
  have "\<exists>s. exec working_driver ?sched (start ''/mnt'' []) = Some s \<and>
          conn s = Some \<lparr>Ready = Closed, MountError = None\<rparr>"
    by (simp add: step_defs start_def working_driver_def)
  then obtain s where s: "exec working_driver ?sched (start ''/mnt'' []) = Some s"
    and c: "conn s = Some \<lparr>Ready = Closed, MountError = None\<rparr>"
    by blast
  from readiness_copies_mount_error [OF d s] c
  have "\<exists>bs s'. set bs \<subseteq> {Step_mountAndServe, Step_readiness} \<and>
         exec working_driver bs s = Some s' \<and> ready_pc s' = Finished \<and>
         readyStatusAvailable (the_mfs s') = Closed \<and>
         readyStatus (the_mfs s') = MountError \<lparr>Ready = Closed, MountError = None\<rparr>"
    by simp
  with d s c show ?thesis by auto
qed

text \<open>
  C4 as stated fails for a call that is cancelled: after the connection became ready
  carrying nil and \<^verbatim>\<open>readyStatusAvailable\<close> was closed with \<^verbatim>\<open>readyStatus\<close> nil, a
  \<^verbatim>\<open>WaitForReady\<close> whose context is done, and whose \<^verbatim>\<open>select\<close> takes the second case,
  returns \<^verbatim>\<open>ctx.Err()\<close>.
\<close>

theorem cancelled_wait_after_ready:
  "map_option the_mfs
     (exec working_driver
        [Step_mountAndServe, Step_mountAndServe, Conn_becomes_ready None,
         Step_readiness, Step_readiness, Step_readiness]
        (start ''/mnt'' [])) =
     Some \<lparr>dir = ''/mnt'', readyStatus = None, readyStatusAvailable = Closed,
            joinStatus = None, joinStatusAvailable = Open\<rparr> \<and>
   WaitForReady
     \<lparr>dir = ''/mnt'', readyStatus = None, readyStatusAvailable = Closed,
        joinStatus = None, joinStatusAvailable = Open\<rparr>
     \<lparr>Done = Closed, Err = Some (ErrorString ''context canceled'')\<rparr> False =
     (Returns (Some (ErrorString ''context canceled'')),
      \<lparr>dir = ''/mnt'', readyStatus = None, readyStatusAvailable = Closed,
         joinStatus = None, joinStatusAvailable = Open\<rparr>)"
  by (simp add: step_defs start_def working_driver_def WaitForReady_def)

text \<open>
  C10. After a successful mount whose connection is not ready yet, and whatever \<open>r\<close>
  that \<^verbatim>\<open>Serve\<close> returns, there is an execution in which \<^verbatim>\<open>Serve\<close> returns \<open>r\<close> and the
  connection never becomes ready, and which reaches a state where \<^verbatim>\<open>joinStatusAvailable\<close>
  is closed while \<^verbatim>\<open>readyStatusAvailable\<close> is open: there a \<^verbatim>\<open>Join\<close> that is not cancelled
  returns, and a \<^verbatim>\<open>WaitForReady\<close> that is not cancelled blocks.
\<close>

theorem termination_may_precede_readiness:
  assumes "bm d opts = Inr cn" and "Ready cn = Open"
  shows "\<exists>as s. exec bm as (start d opts) = Some s \<and>
           Serve_returns r \<in> set as \<and> (\<forall>e. Conn_becomes_ready e \<notin> set as) \<and>
           conn s = Some cn \<and>
           joinStatusAvailable (the_mfs s) = Closed \<and>
           readyStatusAvailable (the_mfs s) = Open \<and>
           (\<forall>ctx pick. Done ctx = Open \<longrightarrow>
              Join (the_mfs s) ctx pick =
                (Returns (case r of None \<Rightarrow> None
                          | Some F \<Rightarrow> Some (errors_New (''Serve: '' @ Error F))),
                 the_mfs s) \<and>
              WaitForReady (the_mfs s) ctx pick = (Blocks, the_mfs s))"
proof (cases r)
  case None
  let ?as = "[Step_mountAndServe, Step_mountAndServe, Step_mountAndServe,
              Serve_returns None, Step_mountAndServe]"
  have "\<exists>s. exec bm ?as (start d opts) = Some s \<and>
           conn s = Some cn \<and>
           joinStatusAvailable (the_mfs s) = Closed \<and> joinStatus (the_mfs s) = None \<and>
           readyStatusAvailable (the_mfs s) = Open"
    using assms by (simp add: step_defs start_def)
  then obtain s where s: "exec bm ?as (start d opts) = Some s"
    "conn s = Some cn" "joinStatusAvailable (the_mfs s) = Closed"
    "joinStatus (the_mfs s) = None" "readyStatusAvailable (the_mfs s) = Open"
    by blast
  have "Serve_returns r \<in> set ?as \<and> (\<forall>e. Conn_becomes_ready e \<notin> set ?as)"
    using None by simp
  moreover have "\<forall>ctx pick. Done ctx = Open \<longrightarrow>
              Join (the_mfs s) ctx pick =
                (Returns (case r of None \<Rightarrow> None
                          | Some F \<Rightarrow> Some (errors_New (''Serve: '' @ Error F))),
                 the_mfs s) \<and>
              WaitForReady (the_mfs s) ctx pick = (Blocks, the_mfs s)"
    using s None by (simp add: Join_not_cancelled WaitForReady_not_cancelled)
  ultimately show ?thesis using s by blast
next
  case (Some F)
  let ?as = "[Step_mountAndServe, Step_mountAndServe, Step_mountAndServe,
              Serve_returns (Some F), Step_mountAndServe, Step_mountAndServe]"
  have "\<exists>s. exec bm ?as (start d opts) = Some s \<and>
           conn s = Some cn \<and>
           joinStatusAvailable (the_mfs s) = Closed \<and>
           joinStatus (the_mfs s) = Some (errors_New (''Serve: '' @ Error F)) \<and>
           readyStatusAvailable (the_mfs s) = Open"
    using assms by (simp add: step_defs start_def)
  then obtain s where s: "exec bm ?as (start d opts) = Some s"
    "conn s = Some cn" "joinStatusAvailable (the_mfs s) = Closed"
    "joinStatus (the_mfs s) = Some (errors_New (''Serve: '' @ Error F))"
    "readyStatusAvailable (the_mfs s) = Open"
    by blast
  have "Serve_returns r \<in> set ?as \<and> (\<forall>e. Conn_becomes_ready e \<notin> set ?as)"
    using Some by simp
  moreover have "\<forall>ctx pick. Done ctx = Open \<longrightarrow>
              Join (the_mfs s) ctx pick =
                (Returns (case r of None \<Rightarrow> None
                          | Some F \<Rightarrow> Some (errors_New (''Serve: '' @ Error F))),
                 the_mfs s) \<and>
              WaitForReady (the_mfs s) ctx pick = (Blocks, the_mfs s)"
    using s Some by (simp add: Join_not_cancelled WaitForReady_not_cancelled)
  ultimately show ?thesis using s by blast
qed

theorem termination_precedes_witness:
  "working_driver ''/mnt'' [] = Inr \<lparr>Ready = Open, MountError = None\<rparr> \<and>
   Ready \<lparr>Ready = Open, MountError = None\<rparr> = Open \<and>
   (\<exists>as s. exec working_driver as (start ''/mnt'' []) = Some s \<and>
      Serve_returns None \<in> set as \<and>
      joinStatusAvailable (the_mfs s) = Closed \<and>
      readyStatusAvailable (the_mfs s) = Open \<and>
      Join (the_mfs s) \<lparr>Done = Open, Err = None\<rparr> True = (Returns None, the_mfs s) \<and>
      WaitForReady (the_mfs s) \<lparr>Done = Open, Err = None\<rparr> True = (Blocks, the_mfs s))"
proof -
  have d: "working_driver ''/mnt'' [] = Inr \<lparr>Ready = Open, MountError = None\<rparr>"
    by (simp add: working_driver_def)
  have o: "Ready \<lparr>Ready = Open, MountError = None\<rparr> = Open" by simp
  from termination_may_precede_readiness [where bm = working_driver and r = None, OF d o] obtain as s where
    s: "exec working_driver as (start ''/mnt'' []) = Some s" "Serve_returns None \<in> set as"
      "joinStatusAvailable (the_mfs s) = Closed" "readyStatusAvailable (the_mfs s) = Open" and
    w: "\<forall>ctx pick. Done ctx = Open \<longrightarrow>
              Join (the_mfs s) ctx pick = (Returns None, the_mfs s) \<and>
              WaitForReady (the_mfs s) ctx pick = (Blocks, the_mfs s)"
    by auto
  from w have "Join (the_mfs s) \<lparr>Done = Open, Err = None\<rparr> True = (Returns None, the_mfs s) \<and>
      WaitForReady (the_mfs s) \<lparr>Done = Open, Err = None\<rparr> True = (Blocks, the_mfs s)"
    by simp
  with d o s show ?thesis by blast
qed

section \<open>What each failure leaves in the struct\<close>

lemma wraps_description:
  "p \<noteq> [] \<Longrightarrow> wraps (errors_New (p @ Error E)) E"
  by (simp add: wraps_def errors_New_def)

lemma served_join_facts:
  assumes "invariant bm d opts s" and "ServeReturned r \<in> set (history s)"
  shows "(joinStatusAvailable (the_mfs s) = Closed \<longrightarrow>
            joinStatus (the_mfs s) = map_option serve_failure r) \<and>
         (\<exists>n s'. exec bm (replicate n Step_mountAndServe) s = Some s' \<and>
            joinStatusAvailable (the_mfs s') = Closed \<and>
            joinStatus (the_mfs s') = map_option serve_failure r)"
proof -
  from assms(2) have ne: "s \<noteq> start d opts" by (auto simp: start_def)
  have "\<not> mount_failed d opts e s" for e
    using mount_failed_no_serve [of d opts e s] assms(2) by auto
  with assms(1) ne have m: "mounted d opts s"
    by (auto simp: invariant_def split: sum.splits)
  from mounted_serve_returned [OF m assms(2)] main_finishes [OF m] obtain n s' where
    run: "exec bm (replicate n Step_mountAndServe) s = Some s'" and fin: "main_pc s' = Returned"
    by blast
  from m run have m': "mounted d opts s'" by (rule mounted_exec)
  from exec_history [OF run] assms(2) have ret': "ServeReturned r \<in> set (history s')" by auto
  from m' fin have c': "joinStatusAvailable (the_mfs s') = Closed"
    by (rule returned_join_closed)
  from closed_join_facts [OF m' ret' c'] run c'
  have "\<exists>n s'. exec bm (replicate n Step_mountAndServe) s = Some s' \<and>
            joinStatusAvailable (the_mfs s') = Closed \<and>
            joinStatus (the_mfs s') = map_option serve_failure r"
    by blast
  with closed_join_facts [OF m assms(2)] show ?thesis by blast
qed

lemma driver_conn_kept:
  assumes "bm d opts = Inr cn" and "Ready cn = Closed"
    and "exec bm as (start d opts) = Some s" and "s \<noteq> start d opts"
  shows "conn s = Some cn"
proof (cases as)
  case Nil
  with assms(3,4) show ?thesis by simp
next
  case (Cons a as')
  with assms(3) obtain s1 where
    s1: "step bm a (start d opts) = Some s1" "exec bm as' s1 = Some s"
    by (auto split: option.splits)
  from s1(1) assms(1) have c1: "conn s1 = Some cn"
    by (cases a) (auto simp: step_defs start_def split: if_splits)
  have "invariant bm d opts (start d opts)" by (simp add: invariant_def)
  then have "invariant bm d opts s1" using s1(1) by (rule invariant_step)
  from conn_ready_stable_exec [OF this c1 assms(2) s1(2)] show ?thesis .
qed

lemma ready_conn_stored:
  assumes "invariant bm d opts s" and "conn s = Some cn" and "Ready cn = Closed"
  shows "(readyStatusAvailable (the_mfs s) = Closed \<longrightarrow>
            readyStatus (the_mfs s) = MountError cn) \<and>
         (\<exists>bs s'. set bs \<subseteq> {Step_mountAndServe, Step_readiness} \<and>
            exec bm bs s = Some s' \<and>
            readyStatusAvailable (the_mfs s') = Closed \<and>
            readyStatus (the_mfs s') = MountError cn)"
proof -
  have "readyStatus (the_mfs s) = MountError cn"
    if "readyStatusAvailable (the_mfs s) = Closed"
    using finished_ready_facts [OF conn_mounted [OF assms(1,2)] assms(2)] that by simp
  moreover from readiness_runs [OF assms]
  have "\<exists>bs s'. set bs \<subseteq> {Step_mountAndServe, Step_readiness} \<and>
            exec bm bs s = Some s' \<and>
            readyStatusAvailable (the_mfs s') = Closed \<and>
            readyStatus (the_mfs s') = MountError cn"
    by blast
  ultimately show ?thesis by blast
qed

lemma driver_conn_stored:
  assumes "bm d opts = Inr cn" and "Ready cn = Closed"
    and "exec bm as (start d opts) = Some s"
  shows "(readyStatusAvailable (the_mfs s) = Closed \<longrightarrow>
            readyStatus (the_mfs s) = MountError cn) \<and>
         (\<exists>bs s'. set bs \<subseteq> {Step_mountAndServe, Step_readiness} \<and>
            exec bm bs s = Some s' \<and>
            readyStatusAvailable (the_mfs s') = Closed \<and>
            readyStatus (the_mfs s') = MountError cn)"
proof (cases "s = start d opts")
  case True
  from assms(1) obtain s1 where
    s1: "step bm Step_mountAndServe (start d opts) = Some s1" and c1: "conn s1 = Some cn"
    by (simp add: step_defs start_def)
  have "invariant bm d opts (start d opts)" by (simp add: invariant_def)
  then have "invariant bm d opts s1" using s1 by (rule invariant_step)
  from ready_conn_stored [OF this c1 assms(2)] obtain bs s' where
    bs: "set bs \<subseteq> {Step_mountAndServe, Step_readiness}" "exec bm bs s1 = Some s'"
      "readyStatusAvailable (the_mfs s') = Closed" "readyStatus (the_mfs s') = MountError cn"
    by blast
  from s1 bs(2) True have "exec bm (Step_mountAndServe # bs) s = Some s'" by simp
  moreover from bs(1) have "set (Step_mountAndServe # bs) \<subseteq> {Step_mountAndServe, Step_readiness}"
    by simp
  moreover from True have "readyStatusAvailable (the_mfs s) = Open" by (simp add: start_def)
  ultimately show ?thesis using bs(3,4) by (metis chan.distinct(1))
next
  case False
  from driver_conn_kept [OF assms False] have c: "conn s = Some cn" .
  from assms(3) have "invariant bm d opts s" by (rule reachable_invariant)
  from ready_conn_stored [OF this c assms(2)] show ?thesis .
qed

text \<open>
  C8, as the code has it. A failed driver mount with error \<open>E\<close> leaves \<^verbatim>\<open>joinStatus\<close> nil
  and puts the error \<^verbatim>\<open>"bazilfuse.Mount: " + E.Error()\<close>, which wraps \<open>E\<close>, into
  \<^verbatim>\<open>readyStatus\<close> before \<^verbatim>\<open>readyStatusAvailable\<close> is closed. An error \<open>F\<close> returned by
  \<^verbatim>\<open>Serve\<close> puts the error \<^verbatim>\<open>"Serve: " + F.Error()\<close>, which wraps \<open>F\<close>, into \<^verbatim>\<open>joinStatus\<close>
  before \<^verbatim>\<open>joinStatusAvailable\<close> is closed. An error \<open>E\<close> carried by the connection's
  readiness, whether the connection became ready during the run or was ready when the
  driver returned it, is put into \<^verbatim>\<open>readyStatus\<close> as it is, with no description added,
  before \<^verbatim>\<open>readyStatusAvailable\<close> is closed. In each case the goroutines run on to a state where
  the channel is closed and the field holds that error, and no field is written after
  its channel is closed.
\<close>

theorem failures_are_stored:
  assumes "exec bm as (start d opts) = Some s"
  shows "(\<forall>E. bm d opts = Inl E \<longrightarrow>
            joinStatus (the_mfs s) = None \<and>
            (readyStatusAvailable (the_mfs s) = Closed \<longrightarrow>
               readyStatus (the_mfs s) =
                 Some (errors_New (''bazilfuse.Mount: '' @ Error E))) \<and>
            wraps (errors_New (''bazilfuse.Mount: '' @ Error E)) E \<and>
            (\<exists>n s'. exec bm (replicate n Step_mountAndServe) s = Some s' \<and>
               readyStatusAvailable (the_mfs s') = Closed \<and>
               readyStatus (the_mfs s') =
                 Some (errors_New (''bazilfuse.Mount: '' @ Error E)))) \<and>
         (\<forall>F. Serve_returns (Some F) \<in> set as \<longrightarrow>
            (joinStatusAvailable (the_mfs s) = Closed \<longrightarrow>
               joinStatus (the_mfs s) = Some (errors_New (''Serve: '' @ Error F))) \<and>
            wraps (errors_New (''Serve: '' @ Error F)) F \<and>
            (\<exists>n s'. exec bm (replicate n Step_mountAndServe) s = Some s' \<and>
               joinStatusAvailable (the_mfs s') = Closed \<and>
               joinStatus (the_mfs s') = Some (errors_New (''Serve: '' @ Error F)))) \<and>
         (\<forall>E. Conn_becomes_ready (Some E) \<in> set as \<longrightarrow>
            (readyStatusAvailable (the_mfs s) = Closed \<longrightarrow>
               readyStatus (the_mfs s) = Some E) \<and>
            (\<exists>bs s'. set bs \<subseteq> {Step_mountAndServe, Step_readiness} \<and>
               exec bm bs s = Some s' \<and>
               readyStatusAvailable (the_mfs s') = Closed \<and>
               readyStatus (the_mfs s') = Some E)) \<and>
         (\<forall>cn E. bm d opts = Inr cn \<and> Ready cn = Closed \<and> MountError cn = Some E \<longrightarrow>
            (readyStatusAvailable (the_mfs s) = Closed \<longrightarrow>
               readyStatus (the_mfs s) = Some E) \<and>
            (\<exists>bs s'. set bs \<subseteq> {Step_mountAndServe, Step_readiness} \<and>
               exec bm bs s = Some s' \<and>
               readyStatusAvailable (the_mfs s') = Closed \<and>
               readyStatus (the_mfs s') = Some E)) \<and>
         (\<forall>cn E. conn s = Some cn \<and> Ready cn = Closed \<and> MountError cn = Some E \<longrightarrow>
            (readyStatusAvailable (the_mfs s) = Closed \<longrightarrow>
               readyStatus (the_mfs s) = Some E) \<and>
            (\<exists>bs s'. set bs \<subseteq> {Step_mountAndServe, Step_readiness} \<and>
               exec bm bs s = Some s' \<and>
               readyStatusAvailable (the_mfs s') = Closed \<and>
               readyStatus (the_mfs s') = Some E)) \<and>
         filter writes_readyStatus (after_first CloseReadyStatusAvailable (history s)) = [] \<and>
         filter writes_joinStatus (after_first CloseJoinStatusAvailable (history s)) = []"
proof -
  from assms have inv: "invariant bm d opts s" by (rule reachable_invariant)
  have 1: "joinStatus (the_mfs s) = None \<and>
            (readyStatusAvailable (the_mfs s) = Closed \<longrightarrow>
               readyStatus (the_mfs s) =
                 Some (errors_New (''bazilfuse.Mount: '' @ Error E))) \<and>
            wraps (errors_New (''bazilfuse.Mount: '' @ Error E)) E \<and>
            (\<exists>n s'. exec bm (replicate n Step_mountAndServe) s = Some s' \<and>
               readyStatusAvailable (the_mfs s') = Closed \<and>
               readyStatus (the_mfs s') =
                 Some (errors_New (''bazilfuse.Mount: '' @ Error E)))"
    if E: "bm d opts = Inl E" for E
  proof -
    from failed_finishes [OF E inv] obtain n s' where
      run: "exec bm (replicate n Step_mountAndServe) s = Some s'" and ret: "main_pc s' = Returned"
      by blast
    from inv run have "invariant bm d opts s'" by (rule invariant_exec)
    from failed_state [OF E this] ret run
    have "\<exists>n s'. exec bm (replicate n Step_mountAndServe) s = Some s' \<and>
               readyStatusAvailable (the_mfs s') = Closed \<and>
               readyStatus (the_mfs s') =
                 Some (errors_New (''bazilfuse.Mount: '' @ Error E))"
      unfolding mount_failure_def by blast
    moreover have "wraps (errors_New (''bazilfuse.Mount: '' @ Error E)) E"
      by (rule wraps_description) simp
    moreover note failed_state [OF E inv, unfolded mount_failure_def]
    ultimately show ?thesis by blast
  qed
  have 2: "(joinStatusAvailable (the_mfs s) = Closed \<longrightarrow>
               joinStatus (the_mfs s) = Some (errors_New (''Serve: '' @ Error F))) \<and>
            wraps (errors_New (''Serve: '' @ Error F)) F \<and>
            (\<exists>n s'. exec bm (replicate n Step_mountAndServe) s = Some s' \<and>
               joinStatusAvailable (the_mfs s') = Closed \<and>
               joinStatus (the_mfs s') = Some (errors_New (''Serve: '' @ Error F)))"
    if F: "Serve_returns (Some F) \<in> set as" for F
  proof -
    from assms F have "ServeReturned (Some F) \<in> set (history s)"
      by (rule schedule_serve_returned)
    note served_join_facts [OF inv this, unfolded option.map serve_failure_def]
    moreover have "wraps (errors_New (''Serve: '' @ Error F)) F"
      by (rule wraps_description) simp
    ultimately show ?thesis by blast
  qed
  have 5: "(readyStatusAvailable (the_mfs s) = Closed \<longrightarrow>
               readyStatus (the_mfs s) = Some E) \<and>
            (\<exists>bs s'. set bs \<subseteq> {Step_mountAndServe, Step_readiness} \<and>
               exec bm bs s = Some s' \<and>
               readyStatusAvailable (the_mfs s') = Closed \<and>
               readyStatus (the_mfs s') = Some E)"
    if cn: "conn s = Some cn" "Ready cn = Closed" "MountError cn = Some E" for cn E
    using ready_conn_stored [OF inv cn(1,2)] cn(3) by simp
  have 3: "(readyStatusAvailable (the_mfs s) = Closed \<longrightarrow>
               readyStatus (the_mfs s) = Some E) \<and>
            (\<exists>bs s'. set bs \<subseteq> {Step_mountAndServe, Step_readiness} \<and>
               exec bm bs s = Some s' \<and>
               readyStatusAvailable (the_mfs s') = Closed \<and>
               readyStatus (the_mfs s') = Some E)"
    if E: "Conn_becomes_ready (Some E) \<in> set as" for E
  proof -
    from schedule_conn_ready [OF assms E] obtain cn where
      "conn s = Some cn" "Ready cn = Closed" "MountError cn = Some E" by blast
    then show ?thesis by (rule 5)
  qed
  have 4: "(readyStatusAvailable (the_mfs s) = Closed \<longrightarrow>
               readyStatus (the_mfs s) = Some E) \<and>
            (\<exists>bs s'. set bs \<subseteq> {Step_mountAndServe, Step_readiness} \<and>
               exec bm bs s = Some s' \<and>
               readyStatusAvailable (the_mfs s') = Closed \<and>
               readyStatus (the_mfs s') = Some E)"
    if cn: "bm d opts = Inr cn" "Ready cn = Closed" "MountError cn = Some E" for cn E
    using driver_conn_stored [OF cn(1,2) assms] cn(3) by simp
  have w: "filter writes_readyStatus
             (after_first CloseReadyStatusAvailable (history s)) = [] \<and>
           filter writes_joinStatus
             (after_first CloseJoinStatusAvailable (history s)) = []"
    using ready_once [OF inv] join_once [OF inv] by simp
  have c1: "\<forall>E. bm d opts = Inl E \<longrightarrow>
            joinStatus (the_mfs s) = None \<and>
            (readyStatusAvailable (the_mfs s) = Closed \<longrightarrow>
               readyStatus (the_mfs s) =
                 Some (errors_New (''bazilfuse.Mount: '' @ Error E))) \<and>
            wraps (errors_New (''bazilfuse.Mount: '' @ Error E)) E \<and>
            (\<exists>n s'. exec bm (replicate n Step_mountAndServe) s = Some s' \<and>
               readyStatusAvailable (the_mfs s') = Closed \<and>
               readyStatus (the_mfs s') =
                 Some (errors_New (''bazilfuse.Mount: '' @ Error E)))"
    using 1 by blast
  have c2: "\<forall>F. Serve_returns (Some F) \<in> set as \<longrightarrow>
            (joinStatusAvailable (the_mfs s) = Closed \<longrightarrow>
               joinStatus (the_mfs s) = Some (errors_New (''Serve: '' @ Error F))) \<and>
            wraps (errors_New (''Serve: '' @ Error F)) F \<and>
            (\<exists>n s'. exec bm (replicate n Step_mountAndServe) s = Some s' \<and>
               joinStatusAvailable (the_mfs s') = Closed \<and>
               joinStatus (the_mfs s') = Some (errors_New (''Serve: '' @ Error F)))"
    using 2 by blast
  have c3: "\<forall>E. Conn_becomes_ready (Some E) \<in> set as \<longrightarrow>
            (readyStatusAvailable (the_mfs s) = Closed \<longrightarrow>
               readyStatus (the_mfs s) = Some E) \<and>
            (\<exists>bs s'. set bs \<subseteq> {Step_mountAndServe, Step_readiness} \<and>
               exec bm bs s = Some s' \<and>
               readyStatusAvailable (the_mfs s') = Closed \<and>
               readyStatus (the_mfs s') = Some E)"
    using 3 by blast
  have c4: "\<forall>cn E. bm d opts = Inr cn \<and> Ready cn = Closed \<and> MountError cn = Some E \<longrightarrow>
            (readyStatusAvailable (the_mfs s) = Closed \<longrightarrow>
               readyStatus (the_mfs s) = Some E) \<and>
            (\<exists>bs s'. set bs \<subseteq> {Step_mountAndServe, Step_readiness} \<and>
               exec bm bs s = Some s' \<and>
               readyStatusAvailable (the_mfs s') = Closed \<and>
               readyStatus (the_mfs s') = Some E)"
    using 4 by blast
  have c5: "\<forall>cn E. conn s = Some cn \<and> Ready cn = Closed \<and> MountError cn = Some E \<longrightarrow>
            (readyStatusAvailable (the_mfs s) = Closed \<longrightarrow>
               readyStatus (the_mfs s) = Some E) \<and>
            (\<exists>bs s'. set bs \<subseteq> {Step_mountAndServe, Step_readiness} \<and>
               exec bm bs s = Some s' \<and>
               readyStatusAvailable (the_mfs s') = Closed \<and>
               readyStatus (the_mfs s') = Some E)"
    using 5 by blast
  from c1 c2 c3 c4 c5 w show ?thesis by (intro conjI) simp_all
qed

theorem failures_are_stored_witness:
  "\<exists>s. exec working_driver
          [Step_mountAndServe, Step_mountAndServe, Step_mountAndServe,
           Conn_becomes_ready (Some (ErrorString ''EIO'')),
           Serve_returns (Some (ErrorString ''ENOTCONN''))]
          (start ''/mnt'' []) = Some s \<and>
        wraps (ErrorString ''Serve: ENOTCONN'') (ErrorString ''ENOTCONN'') \<and>
        (\<exists>n s'. exec working_driver (replicate n Step_mountAndServe) s = Some s' \<and>
           joinStatusAvailable (the_mfs s') = Closed \<and>
           joinStatus (the_mfs s') = Some (ErrorString ''Serve: ENOTCONN'')) \<and>
        (\<exists>bs s'. set bs \<subseteq> {Step_mountAndServe, Step_readiness} \<and>
           exec working_driver bs s = Some s' \<and>
           readyStatusAvailable (the_mfs s') = Closed \<and>
           readyStatus (the_mfs s') = Some (ErrorString ''EIO'')) \<and>
        ready_failed_driver ''/mnt'' [] =
          Inr \<lparr>Ready = Closed, MountError = Some (ErrorString ''EIO'')\<rparr> \<and>
        (\<exists>bs s'. set bs \<subseteq> {Step_mountAndServe, Step_readiness} \<and>
           exec ready_failed_driver bs (start ''/mnt'' []) = Some s' \<and>
           readyStatusAvailable (the_mfs s') = Closed \<and>
           readyStatus (the_mfs s') = Some (ErrorString ''EIO''))"
proof -
  let ?sched = "[Step_mountAndServe, Step_mountAndServe, Step_mountAndServe,
           Conn_becomes_ready (Some (ErrorString ''EIO'')),
           Serve_returns (Some (ErrorString ''ENOTCONN''))]"
  have "\<exists>s. exec working_driver ?sched (start ''/mnt'' []) = Some s"
    by (simp add: step_defs start_def working_driver_def)
  then obtain s where s: "exec working_driver ?sched (start ''/mnt'' []) = Some s" ..
  have 1: "Serve_returns (Some (ErrorString ''ENOTCONN'')) \<in> set ?sched" by simp
  have 2: "Conn_becomes_ready (Some (ErrorString ''EIO'')) \<in> set ?sched" by simp
  note t = failures_are_stored [OF s]
  from t 1 have j: "wraps (errors_New (''Serve: '' @ Error (ErrorString ''ENOTCONN'')))
           (ErrorString ''ENOTCONN'') \<and>
        (\<exists>n s'. exec working_driver (replicate n Step_mountAndServe) s = Some s' \<and>
           joinStatusAvailable (the_mfs s') = Closed \<and>
           joinStatus (the_mfs s') =
             Some (errors_New (''Serve: '' @ Error (ErrorString ''ENOTCONN''))))"
    by blast
  from t 2 have r: "\<exists>bs s'. set bs \<subseteq> {Step_mountAndServe, Step_readiness} \<and>
           exec working_driver bs s = Some s' \<and>
           readyStatusAvailable (the_mfs s') = Closed \<and>
           readyStatus (the_mfs s') = Some (ErrorString ''EIO'')"
    by blast
  from j have j': "wraps (ErrorString ''Serve: ENOTCONN'') (ErrorString ''ENOTCONN'') \<and>
        (\<exists>n s'. exec working_driver (replicate n Step_mountAndServe) s = Some s' \<and>
           joinStatusAvailable (the_mfs s') = Closed \<and>
           joinStatus (the_mfs s') = Some (ErrorString ''Serve: ENOTCONN''))"
    by (simp add: errors_New_def)
  have d: "ready_failed_driver ''/mnt'' [] =
          Inr \<lparr>Ready = Closed, MountError = Some (ErrorString ''EIO'')\<rparr>"
    by (simp add: ready_failed_driver_def)
  have s0: "exec ready_failed_driver [] (start ''/mnt'' []) = Some (start ''/mnt'' [])"
    by simp
  from failures_are_stored [OF s0] d
  have b: "\<exists>bs s'. set bs \<subseteq> {Step_mountAndServe, Step_readiness} \<and>
           exec ready_failed_driver bs (start ''/mnt'' []) = Some s' \<and>
           readyStatusAvailable (the_mfs s') = Closed \<and>
           readyStatus (the_mfs s') = Some (ErrorString ''EIO'')"
    by simp
  from j' s r d b show ?thesis by blast
qed

text \<open>
  C8 as stated fails on the readiness path: with a connection that becomes ready carrying
  the error \<open>EIO\<close>, the program closes \<^verbatim>\<open>readyStatusAvailable\<close> with \<^verbatim>\<open>readyStatus\<close> holding
  \<open>EIO\<close> itself, which is not \<open>EIO\<close> behind a description.
\<close>

theorem readiness_error_stored_unwrapped:
  "map_option (readyStatus \<circ> the_mfs)
     (exec working_driver
        [Step_mountAndServe, Step_mountAndServe,
         Conn_becomes_ready (Some (ErrorString ''EIO'')),
         Step_readiness, Step_readiness, Step_readiness]
        (start ''/mnt'' [])) = Some (Some (ErrorString ''EIO'')) \<and>
   map_option (readyStatusAvailable \<circ> the_mfs)
     (exec working_driver
        [Step_mountAndServe, Step_mountAndServe,
         Conn_becomes_ready (Some (ErrorString ''EIO'')),
         Step_readiness, Step_readiness, Step_readiness]
        (start ''/mnt'' [])) = Some Closed \<and>
   \<not> wraps (ErrorString ''EIO'') (ErrorString ''EIO'')"
  by (simp add: step_defs start_def working_driver_def wraps_def)

section \<open>What \<^verbatim>\<open>Mount\<close> returns\<close>

text \<open>
  C9, as the code has it. \<^verbatim>\<open>Mount\<close> fails exactly when \<^verbatim>\<open>newServer\<close> fails on the file
  system: it then returns a nil struct and that error. Otherwise, whatever the directory
  and the configuration, it returns a nil error and a struct for the directory with both
  channels open, and of the program it started nothing has run yet: \<^verbatim>\<open>mountAndServe\<close> is
  still before the driver's \<^verbatim>\<open>Mount\<close> of line 86.
\<close>

theorem Mount_returns_at_once:
  "(\<forall>e. newServer fs = Inl e \<longrightarrow>
      Mount newServer bazilfuseOptions d fs config = (None, Some e)) \<and>
   (\<forall>server. newServer fs = Inr server \<longrightarrow>
      (\<exists>h. Mount newServer bazilfuseOptions d fs config = (Some h, None) \<and>
         h = start d (bazilfuseOptions config) \<and>
         dir (the_mfs h) = d \<and>
         readyStatusAvailable (the_mfs h) = Open \<and> joinStatusAvailable (the_mfs h) = Open \<and>
         main_pc h = L86_Mount \<and> ready_pc h = NotStarted \<and> history h = []))"
  by (simp add: Mount_def start_def)

theorem Mount_returns_witness:
  "working_newServer () = Inr () \<and>
   Mount working_newServer no_options ''/mnt'' () (Some MountConfig) =
     (Some (start ''/mnt'' []), None) \<and>
   main_pc (start ''/mnt'' []) = L86_Mount \<and> history (start ''/mnt'' []) = [] \<and>
   failing_newServer () = Inl (ErrorString ''newServer failed'') \<and>
   Mount failing_newServer no_options ''/mnt'' () None =
     (None, Some (ErrorString ''newServer failed''))"
proof -
  have w: "working_newServer () = Inr ()" by (simp add: working_newServer_def)
  have f: "failing_newServer () = Inl (ErrorString ''newServer failed'')"
    by (simp add: failing_newServer_def)
  from Mount_returns_at_once [of working_newServer "()" no_options "''/mnt''" "Some MountConfig"] w
  have 1: "Mount working_newServer no_options ''/mnt'' () (Some MountConfig) =
     (Some (start ''/mnt'' []), None) \<and>
   main_pc (start ''/mnt'' []) = L86_Mount \<and> history (start ''/mnt'' []) = []"
    by (auto simp: no_options_def)
  from Mount_returns_at_once [of failing_newServer "()" no_options "''/mnt''" None] f
  have 2: "Mount failing_newServer no_options ''/mnt'' () None =
     (None, Some (ErrorString ''newServer failed''))"
    by auto
  from w f 1 2 show ?thesis by simp
qed

text \<open>
  C9 as stated fails: with a \<^verbatim>\<open>newServer\<close> that returns an error, \<^verbatim>\<open>Mount\<close> returns a nil
  struct and a non-nil error, whatever the configuration.
\<close>

theorem Mount_fails_with_newServer:
  "Mount failing_newServer no_options ''/mnt'' () (Some MountConfig) =
     (None, Some (ErrorString ''newServer failed''))"
  by (simp add: Mount_def failing_newServer_def)

end
